theory Spec2Isabelle
  imports Main "HOL-Library.Word" "HOL-Library.Signed_Division"
begin

unbundle bit_operations_syntax

section \<open>Machine types of the target\<close>

text \<open>
  The firmware is written for the Keil C51 compiler (header \<open>REGX52.H\<close>, \<open>sbit\<close>
  declarations). There \<open>long\<close> is a 32-bit two's complement integer, \<open>unsigned char\<close>
  is 8 bits wide and \<open>bit\<close> is a single bit. Sums, differences and products of \<open>long\<close>
  are computed modulo \<open>2 ^ 32\<close>; nothing traps on overflow. Key symbols are ASCII
  characters; the value 0 of \<open>keypad_scan\<close> (no key) is the character with code 0.
\<close>

type_synonym long = "32 word"
type_synonym uchar = "8 word"

abbreviation NOKEY :: char where
  "NOKEY \<equiv> CHR 0x00"

text \<open>
  The C expression \<open>a / b\<close> on \<open>long\<close>. The quotient of the signed values is rounded
  toward zero and stored in 32 bits. The expression has no value when the divisor is zero,
  so the model returns \<open>None\<close> there; HOL's own division would silently give 0.
\<close>

definition long_div :: "long \<Rightarrow> long \<Rightarrow> long option" where
  "long_div a b = (if b = 0 then None else Some (word_of_int (sint a sdiv sint b)))"

section \<open>The evaluator, three variants\<close>

text \<open>
  \<open>calc_apply\<close> of calculator.c. The out-parameter \<open>*err\<close> is returned as the second
  component: it is written first with 0 and overwritten with 1 in the zero divisor branch.
  The result is \<open>None\<close> only if an undefined division were evaluated.
\<close>

definition calc_apply :: "long \<Rightarrow> long \<Rightarrow> char \<Rightarrow> (long \<times> uchar) option" where
  "calc_apply a b op =
     (let err = 0 in
      if op = CHR ''+'' then Some (a + b, err)
      else if op = CHR ''-'' then Some (a - b, err)
      else if op = CHR ''*'' then Some (a * b, err)
      else if op = CHR ''/'' then
        (if b = 0 then Some (0, 1)
         else map_option (\<lambda>q. (q, err)) (long_div a b))
      else Some (b, err))"

text \<open>
  \<open>apply_op\<close> of README.md: the same body, the out-parameter is a \<open>bit\<close>.
\<close>

definition apply_op :: "long \<Rightarrow> long \<Rightarrow> char \<Rightarrow> (long \<times> bool) option" where
  "apply_op a b op =
     (let err = False in
      if op = CHR ''+'' then Some (a + b, err)
      else if op = CHR ''-'' then Some (a - b, err)
      else if op = CHR ''*'' then Some (a * b, err)
      else if op = CHR ''/'' then
        (if b = 0 then Some (0, True)
         else map_option (\<lambda>q. (q, err)) (long_div a b))
      else Some (b, err))"

text \<open>
  The display sink sees a sequence of bytes, each written either as a command
  (\<open>lcd_cmd\<close>, RS = 0) or as data (\<open>lcd_data\<close>, RS = 1). Delays are not modelled.
\<close>

datatype lcd_event = LcdCmd uchar | LcdData char

text \<open>
  The variant in part_000 keeps the fault in the global \<open>error_flag\<close>. Its global state
  is that flag together with everything sent to the display so far.
\<close>

record globals =
  error_flag :: uchar
  lcd :: "lcd_event list"

text \<open>
  \<open>calc_apply\<close> of part_000: it takes no error pointer and writes \<open>error_flag\<close>.
\<close>

definition calc_apply_g :: "long \<Rightarrow> long \<Rightarrow> char \<Rightarrow> globals \<Rightarrow> (long \<times> globals) option" where
  "calc_apply_g a b op g =
     (let g0 = g\<lparr>error_flag := 0\<rparr> in
      if op = CHR ''+'' then Some (a + b, g0)
      else if op = CHR ''-'' then Some (a - b, g0)
      else if op = CHR ''*'' then Some (a * b, g0)
      else if op = CHR ''/'' then
        (if b = 0 then Some (0, g0\<lparr>error_flag := 1\<rparr>)
         else map_option (\<lambda>q. (q, g0)) (long_div a b))
      else Some (b, g0))"

section \<open>Display functions\<close>

text \<open>
  \<open>lcd_cmd\<close> and \<open>lcd_data\<close> put one byte on the data port and pulse EN. The three
  files differ in the pins used, not in the bytes sent.
\<close>

definition lcd_cmd :: "uchar \<Rightarrow> lcd_event list" where
  "lcd_cmd cmd = [LcdCmd cmd]"

definition lcd_data :: "char \<Rightarrow> lcd_event list" where
  "lcd_data dat = [LcdData dat]"

definition lcd_clear :: "lcd_event list" where
  "lcd_clear = lcd_cmd 0x01"

definition lcd_goto :: "uchar \<Rightarrow> uchar \<Rightarrow> lcd_event list" where
  "lcd_goto row col = (let addr = (if row = 0 then 0x80 + col else 0xC0 + col) in lcd_cmd addr)"

text \<open>\<open>lcd_print\<close> is only called on string literals, which hold no NUL byte.\<close>

definition lcd_print :: "string \<Rightarrow> lcd_event list" where
  "lcd_print str = concat (map lcd_data (takeWhile (\<lambda>c. c \<noteq> NOKEY) str))"

definition lcd_init :: "lcd_event list" where
  "lcd_init = lcd_cmd 0x38 @ lcd_cmd 0x0C @ lcd_cmd 0x06 @ lcd_clear"

text \<open>
  \<open>n / 10\<close> and \<open>n % 10\<close> on \<open>long\<close> with the constant divisor 10, which is never zero:
  quotient rounded toward zero, remainder with the sign of the dividend.
\<close>

definition div10 :: "long \<Rightarrow> long" where
  "div10 n = word_of_int (sint n sdiv 10)"

definition mod10 :: "long \<Rightarrow> long" where
  "mod10 n = word_of_int (sint n smod 10)"

text \<open>
  The first loop of \<open>lcd_print_num\<close>:
  \<^verbatim>\<open>while(n > 0 && i < 11) { buf[i++] = (n % 10) + '0'; n /= 10; }\<close>
  The index \<open>i\<close> stays below 12, the length of \<open>buf\<close>. The sum \<open>(n % 10) + '0'\<close> is
  narrowed to \<open>char\<close> by the assignment.
\<close>

function fill_buf :: "long \<Rightarrow> nat \<Rightarrow> char list \<Rightarrow> nat \<times> char list" where
  "fill_buf n i buf =
     (if 0 <s n \<and> i < 11
      then fill_buf (div10 n) (Suc i) (buf[i := char_of (unat (mod10 n + 48))])
      else (i, buf))"
  by pat_completeness auto
termination
  by (relation "measure (\<lambda>(n, i, buf). 11 - i)") auto

declare fill_buf.simps [simp del]

text \<open>The second loop: \<^verbatim>\<open>while(i--) lcd_data(buf[i]);\<close>\<close>

fun emit_buf :: "nat \<Rightarrow> char list \<Rightarrow> lcd_event list" where
  "emit_buf 0 buf = []"
| "emit_buf (Suc i) buf = lcd_data (buf ! i) @ emit_buf i buf"

text \<open>
  \<open>lcd_print_num\<close>, the same text in all three files. The local array \<open>buf\<close> starts
  with unspecified content; only cells written by the first loop are read by the second,
  so the model starts from twelve NUL bytes. The negation \<open>n = -n\<close> is 32-bit.
\<close>

definition lcd_print_num :: "long \<Rightarrow> lcd_event list" where
  "lcd_print_num n =
     (if n = 0 then lcd_data (CHR ''0'')
      else
        let (sign, m) = (if n <s 0 then (lcd_data (CHR ''-''), - n) else ([], n));
            (i, buf) = fill_buf m 0 (replicate 12 NOKEY)
        in sign @ emit_buf i buf)"

section \<open>Keypad\<close>

text \<open>
  \<open>keypad_getkey\<close> of calculator.c and part_000 (the same text). Every call of
  \<open>keypad_scan\<close> takes the next element of the list of scan results, NUL for no key.
  The function blocks for ever when no key arrives: the model answers \<open>None\<close> when the
  readings run out before it returns, and otherwise the key with the unread readings.
\<close>

fun wait_release :: "char list \<Rightarrow> char list option" where
  "wait_release [] = None"
| "wait_release (r # rs) = (if r \<noteq> NOKEY then wait_release rs else Some rs)"

fun keypad_getkey :: "char list \<Rightarrow> (char \<times> char list) option" where
  "keypad_getkey [] = None"
| "keypad_getkey [k] = None"
| "keypad_getkey (k # r # rs) =
     (if k \<noteq> NOKEY then
        (if r = k then
           (case wait_release rs of None \<Rightarrow> None | Some rest \<Rightarrow> Some (k, rest))
         else keypad_getkey rs)
      else keypad_getkey (r # rs))"

text \<open>
  \<open>keypad_getkey\<close> of README.md works on the port \<open>KEYPAD\<close> itself: rows are the low
  nibble (driven), columns the high nibble (read). Every evaluation of the expression
  \<open>KEYPAD & mask\<close> reads the pins once and takes the next element of the list of port
  readings. The read-modify-write statements that drive the rows act on the port latch
  and take no reading.
\<close>

definition keymap :: "char list list" where
  "keymap = [''123+'', ''456-'', ''789*'', ''C0=/'']"

definition col_low :: "uchar \<Rightarrow> bool" where
  "col_low p \<longleftrightarrow> p AND 0xF0 \<noteq> 0xF0"

fun readme_wait_release :: "uchar list \<Rightarrow> uchar list option" where
  "readme_wait_release [] = None"
| "readme_wait_release (p # ps) = (if col_low p then readme_wait_release ps else Some ps)"

text \<open>The chain \<^verbatim>\<open>if((KEYPAD & 0x10) == 0) col = 0; else if ... else col = 0;\<close>\<close>

fun find_col :: "uchar list \<Rightarrow> (nat \<times> uchar list) option" where
  "find_col (p1 # ps) =
     (if p1 AND 0x10 = 0 then Some (0, ps)
      else case ps of [] \<Rightarrow> None | p2 # ps2 \<Rightarrow>
        (if p2 AND 0x20 = 0 then Some (1, ps2)
         else case ps2 of [] \<Rightarrow> None | p3 # ps3 \<Rightarrow>
           (if p3 AND 0x40 = 0 then Some (2, ps3)
            else case ps3 of [] \<Rightarrow> None | p4 # ps4 \<Rightarrow>
              (if p4 AND 0x80 = 0 then Some (3, ps4) else Some (0, ps4)))))"
| "find_col [] = None"

text \<open>
  The scanning loop \<^verbatim>\<open>while(1) for(row = 0; row < 4; row++)\<close> started at \<open>row\<close>;
  after row 3 comes row 0.
\<close>

fun readme_getkey_from :: "nat \<Rightarrow> uchar list \<Rightarrow> (char \<times> uchar list) option" where
  "readme_getkey_from row [] = None"
| "readme_getkey_from row [p] = None"
| "readme_getkey_from row (p # p2 # ps) =
     (if col_low p then
        (if col_low p2 then
           (case find_col ps of None \<Rightarrow> None
            | Some (col, ps') \<Rightarrow>
                (case readme_wait_release ps' of None \<Rightarrow> None
                 | Some rest \<Rightarrow> Some (keymap ! row ! col, rest)))
         else readme_getkey_from (if row < 3 then Suc row else 0) ps)
      else readme_getkey_from (if row < 3 then Suc row else 0) (p2 # ps))"

definition readme_getkey :: "uchar list \<Rightarrow> (char \<times> uchar list) option" where
  "readme_getkey ps = readme_getkey_from 0 ps"

text \<open>
  The key a port reading stands for while \<open>row\<close> is driven: the lowest column whose line
  reads 0, looked up in \<open>keymap\<close>; NUL when no column line is low.
\<close>

definition decode :: "nat \<Rightarrow> uchar \<Rightarrow> char" where
  "decode row p =
     (if p AND 0x10 = 0 then keymap ! row ! 0
      else if p AND 0x20 = 0 then keymap ! row ! 1
      else if p AND 0x40 = 0 then keymap ! row ! 2
      else if p AND 0x80 = 0 then keymap ! row ! 3
      else NOKEY)"

section \<open>The input controller\<close>

text \<open>
  The test \<^verbatim>\<open>key >= '0' && key <= '9'\<close> and the value \<^verbatim>\<open>key - '0'\<close> of a key that passed
  it. \<open>char\<close> is signed in C51; a code above 127 fails the first comparison as a signed
  value and the second as an unsigned one, so the test is the same on the code.
\<close>

definition is_digit :: "char \<Rightarrow> bool" where
  "is_digit key \<longleftrightarrow> (of_char (CHR ''0'') :: nat) \<le> of_char key \<and> (of_char key :: nat) \<le> of_char (CHR ''9'')"

definition digit_of :: "char \<Rightarrow> long" where
  "digit_of key = word_of_int (of_char key - of_char (CHR ''0''))"

definition is_operator :: "char \<Rightarrow> bool" where
  "is_operator key \<longleftrightarrow> key = CHR ''+'' \<or> key = CHR ''-'' \<or> key = CHR ''*'' \<or> key = CHR ''/''"

subsection \<open>calculator.c\<close>

record calc_state =
  num1 :: long
  num2 :: long
  res :: long
  op :: char
  have_op :: uchar
  err :: uchar

definition init_state :: calc_state where
  "init_state = \<lparr>num1 = 0, num2 = 0, res = 0, op = NOKEY, have_op = 0, err = 0\<rparr>"

definition prompt :: "lcd_event list" where
  "prompt = lcd_clear @ lcd_goto 0 0 @ lcd_print ''Enter:'' @ lcd_goto 1 0"

text \<open>What \<open>main\<close> has done when it enters its loop: the variables and the display output.\<close>

definition main_start :: "calc_state \<times> lcd_event list" where
  "main_start =
     (init_state,
      lcd_init @ lcd_goto 0 0 @ lcd_print ''AT89S52 Calc'' @ lcd_clear @
      lcd_goto 0 0 @ lcd_print ''Enter:'' @ lcd_goto 1 0)"

text \<open>
  One pass of the loop body of \<open>main\<close> for the key returned by \<open>keypad_getkey\<close>: the new
  variables and the bytes sent to the display. \<open>None\<close> only if the evaluator had no value.
\<close>

definition main_step :: "char \<Rightarrow> calc_state \<Rightarrow> (calc_state \<times> lcd_event list) option" where
  "main_step key s =
     (if key = CHR ''C'' then
        Some (s\<lparr>num1 := 0, num2 := 0, res := 0, op := NOKEY, have_op := 0, err := 0\<rparr>,
              lcd_clear @ lcd_goto 0 0 @ lcd_print ''Enter:'' @ lcd_goto 1 0)
      else if key = CHR ''+'' \<or> key = CHR ''-'' \<or> key = CHR ''*'' \<or> key = CHR ''/'' then
        (if have_op s = 0
         then Some (s\<lparr>op := key, have_op := 1\<rparr>,
                    lcd_data (CHR '' '') @ lcd_data key @ lcd_data (CHR '' ''))
         else Some (s, []))
      else if key = CHR ''='' then
        (if have_op s \<noteq> 0 then
           (case calc_apply (num1 s) (num2 s) (op s) of
              None \<Rightarrow> None
            | Some (r, e) \<Rightarrow>
                Some (s\<lparr>res := r, err := e, num1 := (if e \<noteq> 0 then 0 else r),
                        num2 := 0, have_op := 0, op := NOKEY\<rparr>,
                      lcd_clear @ lcd_goto 0 0 @ lcd_print ''Result:'' @ lcd_goto 1 0 @
                      (if e \<noteq> 0 then lcd_print ''Error: /0'' else lcd_print_num r)))
         else Some (s, []))
      else if is_digit key then
        Some (if have_op s = 0
              then s\<lparr>num1 := num1 s * 10 + digit_of key\<rparr>
              else s\<lparr>num2 := num2 s * 10 + digit_of key\<rparr>,
              lcd_data key)
      else Some (s, []))"

text \<open>The loop of \<open>main\<close> over the keys pressed so far, display output collected.\<close>

fun run_keys :: "char list \<Rightarrow> calc_state \<Rightarrow> (calc_state \<times> lcd_event list) option" where
  "run_keys [] s = Some (s, [])"
| "run_keys (key # keys) s =
     (case main_step key s of
        None \<Rightarrow> None
      | Some (s', out) \<Rightarrow>
          (case run_keys keys s' of
             None \<Rightarrow> None
           | Some (s'', out') \<Rightarrow> Some (s'', out @ out')))"

subsection \<open>part_000\<close>

text \<open>The locals of \<open>main\<close> in part_000; the fault lives in the global \<open>error_flag\<close>.\<close>

record locals_g =
  num1_g :: long
  num2_g :: long
  res_g :: long
  op_g :: char
  have_op_g :: uchar

definition init_locals_g :: locals_g where
  "init_locals_g = \<lparr>num1_g = 0, num2_g = 0, res_g = 0, op_g = NOKEY, have_op_g = 0\<rparr>"

definition send :: "lcd_event list \<Rightarrow> globals \<Rightarrow> globals" where
  "send out g = g\<lparr>lcd := lcd g @ out\<rparr>"

definition main_start_g :: "locals_g \<times> globals" where
  "main_start_g =
     (init_locals_g,
      \<lparr>error_flag = 0,
       lcd = lcd_init @ lcd_goto 0 0 @ lcd_print ''AT89S52 Calc'' @ lcd_clear @
             lcd_goto 0 0 @ lcd_print ''Enter:'' @ lcd_goto 1 0\<rparr>)"

definition main_step_g :: "char \<Rightarrow> locals_g \<times> globals \<Rightarrow> (locals_g \<times> globals) option" where
  "main_step_g key sg =
     (let (s, g) = sg in
      if key = CHR ''C'' then
        Some (s\<lparr>num1_g := 0, num2_g := 0, res_g := 0, op_g := NOKEY, have_op_g := 0\<rparr>,
              send (lcd_clear @ lcd_goto 0 0 @ lcd_print ''Enter:'' @ lcd_goto 1 0)
                (g\<lparr>error_flag := 0\<rparr>))
      else if key = CHR ''+'' \<or> key = CHR ''-'' \<or> key = CHR ''*'' \<or> key = CHR ''/'' then
        (if have_op_g s = 0
         then Some (s\<lparr>op_g := key, have_op_g := 1\<rparr>,
                    send (lcd_data (CHR '' '') @ lcd_data key @ lcd_data (CHR '' '')) g)
         else Some (s, g))
      else if key = CHR ''='' then
        (if have_op_g s \<noteq> 0 then
           (case calc_apply_g (num1_g s) (num2_g s) (op_g s) g of
              None \<Rightarrow> None
            | Some (r, g') \<Rightarrow>
                Some (s\<lparr>res_g := r, num1_g := (if error_flag g' \<noteq> 0 then 0 else r),
                        num2_g := 0, have_op_g := 0, op_g := NOKEY\<rparr>,
                      send (lcd_clear @ lcd_goto 0 0 @ lcd_print ''Result:'' @ lcd_goto 1 0 @
                            (if error_flag g' \<noteq> 0 then lcd_print ''Error: /0''
                             else lcd_print_num r)) g'))
         else Some (s, g))
      else if is_digit key then
        Some (if have_op_g s = 0
              then s\<lparr>num1_g := num1_g s * 10 + digit_of key\<rparr>
              else s\<lparr>num2_g := num2_g s * 10 + digit_of key\<rparr>,
              send (lcd_data key) g)
      else Some (s, g))"

fun run_keys_g :: "char list \<Rightarrow> locals_g \<times> globals \<Rightarrow> (locals_g \<times> globals) option" where
  "run_keys_g [] sg = Some sg"
| "run_keys_g (key # keys) sg =
     (case main_step_g key sg of None \<Rightarrow> None | Some sg' \<Rightarrow> run_keys_g keys sg')"

subsection \<open>README.md\<close>

text \<open>The locals of \<open>main\<close> in README.md; \<open>have_op\<close> and \<open>err\<close> are of type \<open>bit\<close>.\<close>

record readme_state =
  num1_r :: long
  num2_r :: long
  result_r :: long
  op_r :: char
  have_op_r :: bool
  err_r :: bool

definition readme_step :: "char \<Rightarrow> readme_state \<Rightarrow> (readme_state \<times> lcd_event list) option" where
  "readme_step key s =
     (if key = CHR ''C'' then
        Some (s\<lparr>num1_r := 0, num2_r := 0, result_r := 0, op_r := NOKEY,
                have_op_r := False, err_r := False\<rparr>,
              lcd_cmd 0x01 @ lcd_goto 0 0 @ lcd_print ''Enter:'' @ lcd_goto 1 0)
      else if key = CHR ''+'' \<or> key = CHR ''-'' \<or> key = CHR ''*'' \<or> key = CHR ''/'' then
        (if \<not> have_op_r s
         then Some (s\<lparr>op_r := key, have_op_r := True\<rparr>,
                    lcd_data (CHR '' '') @ lcd_data key @ lcd_data (CHR '' ''))
         else Some (s, []))
      else if key = CHR ''='' then
        (if have_op_r s then
           (case apply_op (num1_r s) (num2_r s) (op_r s) of
              None \<Rightarrow> None
            | Some (r, e) \<Rightarrow>
                Some (s\<lparr>result_r := r, err_r := e, num1_r := (if e then 0 else r),
                        num2_r := 0, have_op_r := False, op_r := NOKEY\<rparr>,
                      lcd_cmd 0x01 @ lcd_goto 0 0 @ lcd_print ''Result:'' @ lcd_goto 1 0 @
                      (if e then lcd_print ''Error: /0'' else lcd_print_num r)))
         else Some (s, []))
      else if is_digit key then
        Some (if \<not> have_op_r s
              then s\<lparr>num1_r := num1_r s * 10 + digit_of key\<rparr>
              else s\<lparr>num2_r := num2_r s * 10 + digit_of key\<rparr>,
              lcd_data key)
      else Some (s, []))"

section \<open>Statements about fixed-width arithmetic\<close>

text \<open>
  Reading of the spec's "wraps silently" for a 32-bit signed type: the mathematical value
  is reduced into the range from \<open>- 2 ^ 31\<close> up to \<open>2 ^ 31 - 1\<close> modulo \<open>2 ^ 32\<close>.
\<close>

definition wrap32 :: "int \<Rightarrow> int" where
  "wrap32 x = (x + 2 ^ 31) mod 2 ^ 32 - 2 ^ 31"

text \<open>
  Reading of the spec's "truncating integer division (rounds toward zero)": \<open>q\<close> is the
  quotient of \<open>x\<close> by \<open>y\<close> when the remainder \<open>x - q * y\<close> is smaller in magnitude than
  the divisor and does not have the opposite sign of the dividend.
\<close>

definition rounds_toward_zero :: "int \<Rightarrow> int \<Rightarrow> int \<Rightarrow> bool" where
  "rounds_toward_zero x y q \<longleftrightarrow> \<bar>x - q * y\<bar> < \<bar>y\<bar> \<and> 0 \<le> (x - q * y) * x"

text \<open>
  Reading of the spec's "decimal, handles sign, no leading zeros, renders 0 for zero":
  the digits of a natural number, most significant first, and a minus sign before the
  digits of the magnitude of a negative number.
\<close>

fun dec_digits :: "nat \<Rightarrow> string" where
  "dec_digits n =
     (if n < 10 then [''0123456789'' ! n]
      else dec_digits (n div 10) @ [''0123456789'' ! (n mod 10)])"

declare dec_digits.simps [simp del]

definition decimal :: "int \<Rightarrow> string" where
  "decimal x = (if x < 0 then CHR ''-'' # dec_digits (nat (- x)) else dec_digits (nat x))"

section \<open>Evaluator: helper lemmas\<close>

lemma wrap32_id: "- (2 ^ 31) \<le> x \<Longrightarrow> x < 2 ^ 31 \<Longrightarrow> wrap32 x = x"
  by (simp add: wrap32_def)

lemma sint_word_of_int_wrap32: "sint (word_of_int x :: long) = wrap32 x"
  by (simp add: wrap32_def int_word_sint)

lemma long_as_wrap32: "(w :: long) = word_of_int x \<longleftrightarrow> sint w = wrap32 x"
proof
  assume "w = word_of_int x"
  then show "sint w = wrap32 x" by (simp add: sint_word_of_int_wrap32)
next
  assume h: "sint w = wrap32 x"
  have "sint w = sint (word_of_int x :: long)"
    using h by (simp add: sint_word_of_int_wrap32)
  then show "w = word_of_int x"
    by (simp only: signed_word_eqI)
qed

lemma sint_long_range: "- (2 ^ 31) \<le> sint (w :: long) \<and> sint w < 2 ^ 31"
  using sint_ge [of w] sint_lt [of w] by simp

lemma rtz_sdiv: 
  assumes "y \<noteq> 0" shows "rounds_toward_zero x y (x sdiv y)"
proof -
  have r: "x - x sdiv y * y = sgn x * (\<bar>x\<bar> mod \<bar>y\<bar>)"
    by (simp only: minus_sdiv_mult_eq_smod smod_int_alt_def)
  have m: "0 \<le> \<bar>x\<bar> mod \<bar>y\<bar> \<and> \<bar>x\<bar> mod \<bar>y\<bar> < \<bar>y\<bar>"
    using assms by simp
  have a: "\<bar>sgn x * (\<bar>x\<bar> mod \<bar>y\<bar>)\<bar> < \<bar>y\<bar>"
    using m by (cases "x = 0") (simp_all add: abs_mult)
  have e: "sgn x * (\<bar>x\<bar> mod \<bar>y\<bar>) * x = \<bar>x\<bar> * (\<bar>x\<bar> mod \<bar>y\<bar>)"
    by (cases x "0::int" rule: linorder_cases) simp_all
  have "0 \<le> \<bar>x\<bar> * (\<bar>x\<bar> mod \<bar>y\<bar>)"
    using m by simp
  then have b: "0 \<le> sgn x * (\<bar>x\<bar> mod \<bar>y\<bar>) * x"
    by (simp only: e)
  show ?thesis
    unfolding rounds_toward_zero_def r using a b by simp
qed

text \<open>The two conditions determine the quotient.\<close>

lemma rtz_unique:
  assumes y: "y \<noteq> 0" and a: "rounds_toward_zero x y q" and b: "rounds_toward_zero x y q'"
  shows "q = q'"
proof -
  define r where "r = x - q * y"
  define r' where "r' = x - q' * y"
  have ra: "\<bar>r\<bar> < \<bar>y\<bar>" "0 \<le> r * x" and rb: "\<bar>r'\<bar> < \<bar>y\<bar>" "0 \<le> r' * x"
    using a b by (simp_all add: rounds_toward_zero_def r_def r'_def)
  have d: "(q - q') * y = r' - r"
    by (simp add: r_def r'_def algebra_simps)
  have s: "\<bar>r' - r\<bar> < \<bar>y\<bar>"
  proof (cases x "0 :: int" rule: linorder_cases)
    case less
    then have "r \<le> 0" "r' \<le> 0" using ra(2) rb(2)
      by (simp_all add: zero_le_mult_iff)
    then show ?thesis using ra(1) rb(1) by linarith
  next
    case equal
    then have "q * y = - r" "q' * y = - r'" by (simp_all add: r_def r'_def)
    then have "\<bar>q\<bar> * \<bar>y\<bar> < \<bar>y\<bar>" "\<bar>q'\<bar> * \<bar>y\<bar> < \<bar>y\<bar>"
      using ra(1) rb(1) by (simp_all flip: abs_mult)
    then have "\<bar>q\<bar> < 1" "\<bar>q'\<bar> < 1" using y by simp_all
    then have "q = 0" "q' = 0" by simp_all
    then have "r = r'" by (simp add: r_def r'_def)
    then show ?thesis using y by simp
  next
    case greater
    then have "0 \<le> r" "0 \<le> r'" using ra(2) rb(2)
      by (simp_all add: zero_le_mult_iff)
    then show ?thesis using ra(1) rb(1) by linarith
  qed
  have "\<bar>q - q'\<bar> * \<bar>y\<bar> < 1 * \<bar>y\<bar>"
    using s d by (simp flip: abs_mult)
  then have "\<bar>q - q'\<bar> < 1"
    using y by (simp add: mult_less_cancel_right)
  then show ?thesis by simp
qed

lemma abs_sdiv_eq: "\<bar>(x::int) sdiv y\<bar> = (if x = 0 \<or> y = 0 then 0 else \<bar>x\<bar> div \<bar>y\<bar>)"
proof -
  have n: "0 \<le> \<bar>x\<bar> div \<bar>y\<bar>"
    by (simp add: div_int_pos_iff)
  show ?thesis
    using n by (simp add: signed_divide_int_def abs_mult)
qed

lemma sdiv_abs_le: "\<bar>(x::int) sdiv y\<bar> \<le> \<bar>x\<bar> div \<bar>y\<bar>"
  by (simp add: abs_sdiv_eq div_int_pos_iff)

lemma abs_div_le_abs: "\<bar>x::int\<bar> div \<bar>y\<bar> \<le> \<bar>x\<bar>"
  by (cases "x = 0") (simp_all add: int_div_le_self)

lemma long_min_iff: "(a :: long) = - 2147483648 \<longleftrightarrow> sint a = - (2 ^ 31)"
proof
  assume "a = - 2147483648" then show "sint a = - (2 ^ 31)" by simp
next
  assume "sint a = - (2 ^ 31)"
  then have "sint a = sint (- 2147483648 :: long)" by simp
  then show "a = - 2147483648" by (rule signed_word_eqI)
qed

lemma long_m1_iff: "(b :: long) = - 1 \<longleftrightarrow> sint b = - 1"
proof
  assume "b = - 1" then show "sint b = - 1" by simp
next
  assume "sint b = - 1"
  then have "sint b = sint (- 1 :: long)" by simp
  then show "b = - 1" by (rule signed_word_eqI)
qed

lemma sdiv_in_range_int:
  assumes x: "- (2 ^ 31) \<le> x" "x < 2 ^ 31" and nov: "\<not> (x = - (2 ^ 31) \<and> y = - 1)"
  shows "- (2 ^ 31) \<le> x sdiv y \<and> x sdiv y < (2 ^ 31 :: int)"
proof (cases "x = - (2 ^ 31)")
  case False
  then have "\<bar>x\<bar> < 2 ^ 31" using x by simp
  moreover have "\<bar>x\<bar> div \<bar>y\<bar> \<le> \<bar>x\<bar>" by (rule abs_div_le_abs)
  ultimately have "\<bar>x sdiv y\<bar> < 2 ^ 31" using sdiv_abs_le [of x y] by linarith
  then show ?thesis by (simp add: abs_less_iff)
next
  case True
  then have y: "y \<noteq> - 1" using nov by simp
  show ?thesis
  proof (cases "y = 0 \<or> y = 1")
    case True
    then show ?thesis using \<open>x = - (2 ^ 31)\<close> by auto
  next
    case False
    then have "2 \<le> \<bar>y\<bar>" using y by linarith
    then have "\<bar>x\<bar> div \<bar>y\<bar> \<le> \<bar>x\<bar> div 2"
      by (intro zdiv_mono2) simp_all
    then have "\<bar>x sdiv y\<bar> \<le> 2 ^ 30" using sdiv_abs_le [of x y] \<open>x = - (2 ^ 31)\<close> by simp
    then show ?thesis by (simp add: abs_le_iff)
  qed
qed

lemma sdiv_in_range:
  assumes "\<not> (a = (- 2147483648 :: long) \<and> b = (- 1 :: long))"
  shows "- (2 ^ 31) \<le> sint a sdiv sint b \<and> sint a sdiv sint b < 2 ^ 31"
proof (rule sdiv_in_range_int)
  show "- (2 ^ 31) \<le> sint a" and "sint a < 2 ^ 31"
    using sint_long_range [of a] by simp_all
  show "\<not> (sint a = - (2 ^ 31) \<and> sint b = - 1)"
    using assms long_min_iff [of a] long_m1_iff [of b] by blast
qed

lemma long_div_Some: "b \<noteq> 0 \<Longrightarrow> long_div a b = Some (word_of_int (sint a sdiv sint b))"
  by (simp add: long_div_def)

lemma sint_b_nonzero:
  assumes "(b :: long) \<noteq> 0" shows "sint b \<noteq> 0"
proof
  assume "sint b = 0"
  then have "sint b = sint (0 :: long)" by simp
  then have "b = 0" by (rule signed_word_eqI)
  with assms show False by simp
qed

lemma calc_apply_total: "\<exists>r e. calc_apply a b c = Some (r, e)"
  by (simp add: calc_apply_def long_div_def)

lemma apply_op_calc_apply:
  "apply_op a b c = map_option (\<lambda>(r, e). (r, e \<noteq> 0)) (calc_apply a b c)"
  by (simp add: apply_op_def calc_apply_def long_div_def)

lemma calc_apply_g_calc_apply:
  "calc_apply_g a b c g = map_option (\<lambda>(r, e). (r, g\<lparr>error_flag := e\<rparr>)) (calc_apply a b c)"
  by (simp add: calc_apply_g_def calc_apply_def long_div_def)

lemma calc_apply_div:
  assumes "b \<noteq> 0"
  shows "\<exists>q t. calc_apply a b (CHR ''/'') = Some (q, 0) \<and>
           rounds_toward_zero (sint a) (sint b) t \<and> sint q = wrap32 t \<and>
           (\<not> (a = - 2147483648 \<and> b = - 1) \<longrightarrow> sint q = t)"
proof -
  let ?t = "sint a sdiv sint b"
  let ?q = "word_of_int ?t :: long"
  have 1: "calc_apply a b (CHR ''/'') = Some (?q, 0)"
    using assms by (simp add: calc_apply_def long_div_def)
  have 2: "rounds_toward_zero (sint a) (sint b) ?t"
    using assms by (intro rtz_sdiv sint_b_nonzero)
  have 3: "sint ?q = wrap32 ?t"
    by (rule sint_word_of_int_wrap32)
  have 4: "\<not> (a = - 2147483648 \<and> b = - 1) \<longrightarrow> sint ?q = ?t"
    using sdiv_in_range [of a b] by (auto simp add: 3 intro: wrap32_id)
  show ?thesis using 1 2 3 4 by blast
qed


section \<open>C1: division by zero is reported, not computed\<close>

text \<open>
  C1, as stated, fails for one pair of operands with \<open>b \<noteq> 0\<close>. The quotient of
  \<open>- 2 ^ 31\<close> by \<open>- 1\<close> rounded toward zero is \<open>2 ^ 31\<close>, which a 32-bit \<open>long\<close> cannot
  hold: \<open>calc_apply\<close> and \<open>apply_op\<close> return \<open>- 2 ^ 31\<close> with the fault clear. The pair
  is reached from the keypad, where the digits \<open>2147483648\<close> wrap \<open>num1\<close> to \<open>- 2 ^ 31\<close>
  and the digits \<open>4294967295\<close> wrap \<open>num2\<close> to \<open>- 1\<close>.
\<close>

theorem divide_overflow_wraps:
  "calc_apply (- 2147483648) (- 1) (CHR ''/'') = Some (- 2147483648, 0) \<and>
   apply_op (- 2147483648) (- 1) (CHR ''/'') = Some (- 2147483648, False) \<and>
   sint (- 2147483648 :: long) = - 2147483648 \<and> sint (- 1 :: long) = - 1 \<and>
   \<not> rounds_toward_zero (- 2147483648) (- 1) (- 2147483648) \<and>
   rounds_toward_zero (- 2147483648) (- 1) 2147483648 \<and>
   run_keys ''2147483648/4294967295='' init_state =
     Some (\<lparr>num1 = - 2147483648, num2 = 0, res = - 2147483648, op = NOKEY,
            have_op = 0, err = 0\<rparr>,
           map LcdData ''2147483648 / 4294967295'' @ lcd_clear @ lcd_goto 0 0 @
           lcd_print ''Result:'' @ lcd_goto 1 0 @ [LcdData (CHR ''-'')])"
proof (intro conjI)
  show "calc_apply (- 2147483648) (- 1) (CHR ''/'') = Some (- 2147483648, 0)"
    by code_simp
  show "apply_op (- 2147483648) (- 1) (CHR ''/'') = Some (- 2147483648, False)"
    by code_simp
  show "sint (- 2147483648 :: long) = - 2147483648" by simp
  show "sint (- 1 :: long) = - 1" by simp
  show "\<not> rounds_toward_zero (- 2147483648) (- 1) (- 2147483648)"
    by (simp add: rounds_toward_zero_def)
  show "rounds_toward_zero (- 2147483648) (- 1) 2147483648"
    by (simp add: rounds_toward_zero_def)
  show "run_keys ''2147483648/4294967295='' init_state =
     Some (\<lparr>num1 = - 2147483648, num2 = 0, res = - 2147483648, op = NOKEY,
            have_op = 0, err = 0\<rparr>,
           map LcdData ''2147483648 / 4294967295'' @ lcd_clear @ lcd_goto 0 0 @
           lcd_print ''Result:'' @ lcd_goto 1 0 @ [LcdData (CHR ''-'')])"
    by code_simp
qed

text \<open>
  C1, amended. For every \<open>a\<close>, the operator \<open>/\<close> with second operand 0 gives result 0
  with the fault set, in \<open>calc_apply\<close> of calculator.c and in \<open>apply_op\<close> of README.md; the
  value is defined, so the division, which has no value for a zero divisor, is not
  evaluated. With \<open>b \<noteq> 0\<close> the fault is clear and the result \<open>q\<close> is the quotient \<open>t\<close> of
  \<open>a\<close> by \<open>b\<close> rounded toward zero, wrapped into 32 bits; it is \<open>t\<close> itself for every pair
  other than \<open>a = - 2 ^ 31\<close>, \<open>b = - 1\<close>.
\<close>

theorem divide_guarded:
  "calc_apply a 0 (CHR ''/'') = Some (0, 1) \<and>
   apply_op a 0 (CHR ''/'') = Some (0, True) \<and>
   (b \<noteq> 0 \<longrightarrow>
      (\<exists>q t. calc_apply a b (CHR ''/'') = Some (q, 0) \<and>
              apply_op a b (CHR ''/'') = Some (q, False) \<and>
              rounds_toward_zero (sint a) (sint b) t \<and> sint q = wrap32 t \<and>
              (\<not> (a = - 2147483648 \<and> b = - 1) \<longrightarrow> sint q = t)))"
proof (intro conjI impI)
  show "calc_apply a 0 (CHR ''/'') = Some (0, 1)"
    by (simp add: calc_apply_def)
  show "apply_op a 0 (CHR ''/'') = Some (0, True)"
    by (simp add: apply_op_def)
next
  assume "b \<noteq> 0"
  from calc_apply_div [OF this, of a]
  obtain q t where h: "calc_apply a b (CHR ''/'') = Some (q, 0)"
      "rounds_toward_zero (sint a) (sint b) t" "sint q = wrap32 t"
      "\<not> (a = - 2147483648 \<and> b = - 1) \<longrightarrow> sint q = t"
    by blast
  have "apply_op a b (CHR ''/'') = Some (q, False)"
    by (simp add: apply_op_calc_apply h(1))
  with h show "\<exists>q t. calc_apply a b (CHR ''/'') = Some (q, 0) \<and>
              apply_op a b (CHR ''/'') = Some (q, False) \<and>
              rounds_toward_zero (sint a) (sint b) t \<and> sint q = wrap32 t \<and>
              (\<not> (a = - 2147483648 \<and> b = - 1) \<longrightarrow> sint q = t)"
    by blast
qed

theorem divide_guarded_witness:
  "(2 :: long) \<noteq> 0 \<and> calc_apply (- 7) 2 (CHR ''/'') = Some (- 3, 0) \<and>
   apply_op (- 7) 2 (CHR ''/'') = Some (- 3, False) \<and>
   rounds_toward_zero (- 7) 2 (- 3)"
proof -
  have nz: "(2 :: long) \<noteq> 0" by simp
  from divide_guarded [of "- 7" 2] nz
  obtain q t where h: "calc_apply (- 7) 2 (CHR ''/'') = Some (q, 0)"
      "apply_op (- 7) 2 (CHR ''/'') = Some (q, False)"
      "rounds_toward_zero (sint (- 7 :: long)) (sint (2 :: long)) t" "sint q = wrap32 t"
      "\<not> ((- 7 :: long) = - 2147483648 \<and> (2 :: long) = - 1) \<longrightarrow> sint q = t"
    by blast
  have q: "q = - 3"
    using h(1) by (simp add: calc_apply_def long_div_def signed_divide_int_def)
  have "sint q = t" using h(5) by simp
  then have t: "t = - 3" using q by simp
  show ?thesis using nz h(1,2,3) q t by simp
qed

lemma sint_add_wrap32: "sint (a + b :: long) = wrap32 (sint a + sint b)"
  using sint_word_of_int_wrap32 [of "sint a + sint b"] by simp

lemma sint_sub_wrap32: "sint (a - b :: long) = wrap32 (sint a - sint b)"
  using sint_word_of_int_wrap32 [of "sint a - sint b"] by simp

lemma sint_mult_wrap32: "sint (a * b :: long) = wrap32 (sint a * sint b)"
  using sint_word_of_int_wrap32 [of "sint a * sint b"] by simp


section \<open>C2: the four operations are 32-bit arithmetic without fault\<close>

text \<open>
  C2. For all 32-bit signed \<open>a\<close> and \<open>b\<close>, \<open>calc_apply\<close> of calculator.c and of part_000
  return with the fault clear for \<open>+\<close>, \<open>-\<close> and \<open>*\<close>, and for \<open>/\<close> when \<open>b \<noteq> 0\<close>. The
  result is the exact sum, difference or product of the signed values, or the quotient
  rounded toward zero, wrapped into 32 bits.
\<close>

theorem arithmetic_wraps:
  "(\<exists>r. calc_apply a b (CHR ''+'') = Some (r, 0) \<and>
        calc_apply_g a b (CHR ''+'') g = Some (r, g\<lparr>error_flag := 0\<rparr>) \<and>
        sint r = wrap32 (sint a + sint b)) \<and>
   (\<exists>r. calc_apply a b (CHR ''-'') = Some (r, 0) \<and>
        calc_apply_g a b (CHR ''-'') g = Some (r, g\<lparr>error_flag := 0\<rparr>) \<and>
        sint r = wrap32 (sint a - sint b)) \<and>
   (\<exists>r. calc_apply a b (CHR ''*'') = Some (r, 0) \<and>
        calc_apply_g a b (CHR ''*'') g = Some (r, g\<lparr>error_flag := 0\<rparr>) \<and>
        sint r = wrap32 (sint a * sint b)) \<and>
   (b \<noteq> 0 \<longrightarrow>
      (\<exists>r t. calc_apply a b (CHR ''/'') = Some (r, 0) \<and>
             calc_apply_g a b (CHR ''/'') g = Some (r, g\<lparr>error_flag := 0\<rparr>) \<and>
             rounds_toward_zero (sint a) (sint b) t \<and> sint r = wrap32 t))"
proof (intro conjI impI)
  show "\<exists>r. calc_apply a b (CHR ''+'') = Some (r, 0) \<and>
        calc_apply_g a b (CHR ''+'') g = Some (r, g\<lparr>error_flag := 0\<rparr>) \<and>
        sint r = wrap32 (sint a + sint b)"
    by (simp add: calc_apply_def calc_apply_g_def sint_add_wrap32)
  show "\<exists>r. calc_apply a b (CHR ''-'') = Some (r, 0) \<and>
        calc_apply_g a b (CHR ''-'') g = Some (r, g\<lparr>error_flag := 0\<rparr>) \<and>
        sint r = wrap32 (sint a - sint b)"
    by (simp add: calc_apply_def calc_apply_g_def sint_sub_wrap32)
  show "\<exists>r. calc_apply a b (CHR ''*'') = Some (r, 0) \<and>
        calc_apply_g a b (CHR ''*'') g = Some (r, g\<lparr>error_flag := 0\<rparr>) \<and>
        sint r = wrap32 (sint a * sint b)"
    by (simp add: calc_apply_def calc_apply_g_def sint_mult_wrap32)
next
  assume "b \<noteq> 0"
  from calc_apply_div [OF this, of a]
  obtain q t where h: "calc_apply a b (CHR ''/'') = Some (q, 0)"
      "rounds_toward_zero (sint a) (sint b) t" "sint q = wrap32 t"
    by blast
  have "calc_apply_g a b (CHR ''/'') g = Some (q, g\<lparr>error_flag := 0\<rparr>)"
    by (simp add: calc_apply_g_calc_apply h(1))
  with h show "\<exists>r t. calc_apply a b (CHR ''/'') = Some (r, 0) \<and>
             calc_apply_g a b (CHR ''/'') g = Some (r, g\<lparr>error_flag := 0\<rparr>) \<and>
             rounds_toward_zero (sint a) (sint b) t \<and> sint r = wrap32 t"
    by blast
qed

theorem arithmetic_wraps_witness:
  "(3 :: long) \<noteq> 0 \<and>
   calc_apply 2147483647 3 (CHR ''+'') = Some (- 2147483646, 0) \<and>
   calc_apply (- 2147483647) 3 (CHR ''-'') = Some (2147483646, 0) \<and>
   calc_apply 2147483647 3 (CHR ''*'') = Some (2147483645, 0) \<and>
   calc_apply (- 2147483647) 3 (CHR ''/'') = Some (- 715827882, 0) \<and>
   wrap32 (2147483647 + 3) = - 2147483646"
proof -
  have nz: "(3 :: long) \<noteq> 0" by simp
  have w: "wrap32 (2147483647 + 3) = - 2147483646" by (simp add: wrap32_def)
  from arithmetic_wraps [of 2147483647 3 "\<lparr>error_flag = 0, lcd = []\<rparr>"]
  obtain r where "calc_apply 2147483647 3 (CHR ''+'') = Some (r, 0)"
     and "sint r = wrap32 (sint (2147483647 :: long) + sint (3 :: long))"
    by blast
  then have p: "calc_apply 2147483647 3 (CHR ''+'') = Some (- 2147483646, 0)"
    by (simp add: calc_apply_def)
  have m: "calc_apply (- 2147483647) 3 (CHR ''-'') = Some (2147483646, 0)"
    by (simp add: calc_apply_def)
  have t: "calc_apply 2147483647 3 (CHR ''*'') = Some (2147483645, 0)"
    by (simp add: calc_apply_def)
  from arithmetic_wraps [of "- 2147483647" 3 "\<lparr>error_flag = 0, lcd = []\<rparr>"] nz
  obtain q where "calc_apply (- 2147483647) 3 (CHR ''/'') = Some (q, 0)"
    by blast
  then have d: "calc_apply (- 2147483647) 3 (CHR ''/'') = Some (- 715827882, 0)"
    by (simp add: calc_apply_def long_div_def signed_divide_int_def)
  show ?thesis using nz p m t d w by simp
qed


section \<open>C10: the three evaluators agree\<close>

text \<open>
  C10. For every \<open>a\<close>, \<open>b\<close> and operator character, \<open>calc_apply\<close> of calculator.c (fault
  in \<open>*err\<close>), \<open>calc_apply\<close> of part_000 (fault in \<open>error_flag\<close>, from any global state)
  and \<open>apply_op\<close> of README.md (fault in a \<open>bit\<close>) give the same number and the same
  fault indication.
\<close>

theorem evaluators_agree:
  "map_option (\<lambda>(r, e). (r, e \<noteq> 0)) (calc_apply a b c) = apply_op a b c \<and>
   map_option (\<lambda>(r, g'). (r, error_flag g' \<noteq> 0)) (calc_apply_g a b c g) = apply_op a b c"
  by (simp add: apply_op_def calc_apply_def calc_apply_g_def long_div_def)


section \<open>C6: what the evaluator touches\<close>

text \<open>
  C6, as stated, fails for part_000: there \<open>calc_apply\<close> changes the global
  \<open>error_flag\<close>. On the divisor 0 a global state with the flag 0 becomes one with the
  flag 1.
\<close>

theorem calc_apply_g_writes_flag:
  "calc_apply_g 1 0 (CHR ''/'') \<lparr>error_flag = 0, lcd = []\<rparr> = Some (0, \<lparr>error_flag = 1, lcd = []\<rparr>) \<and>
   \<lparr>error_flag = 1, lcd = []\<rparr> \<noteq> \<lparr>error_flag = 0, lcd = []\<rparr>"
  by (simp add: calc_apply_g_def)


text \<open>
  C6, amended. The result and the fault indication depend on \<open>a\<close>, \<open>b\<close> and the operator
  only, and nothing is sent to the display. In calculator.c the fault leaves through the
  out-parameter; in part_000 \<open>calc_apply\<close> overwrites the global \<open>error_flag\<close> with that
  same fault value, whatever the global state was, and leaves the rest of it as it is.
\<close>

theorem evaluator_frame:
  "(\<exists>r e. calc_apply a b c = Some (r, e) \<and>
          (\<forall>g. calc_apply_g a b c g = Some (r, g\<lparr>error_flag := e\<rparr>)))"
  using calc_apply_total [of a b c] by (auto simp add: calc_apply_g_calc_apply)

section \<open>Input controller: the key \<open>=\<close>\<close>

lemma main_step_equals:
  assumes "have_op s \<noteq> 0"
  shows "\<exists>r e s' out. calc_apply (num1 s) (num2 s) (op s) = Some (r, e) \<and>
           main_step (CHR ''='') s = Some (s', out) \<and>
           res s' = r \<and> err s' = e \<and>
           num1 s' = (if e = 0 then r else 0) \<and> num2 s' = 0 \<and>
           have_op s' = 0 \<and> op s' = NOKEY"
proof -
  obtain r e where h: "calc_apply (num1 s) (num2 s) (op s) = Some (r, e)"
    using calc_apply_total by blast
  show ?thesis
    using assms by (simp add: main_step_def h)
qed

lemma main_step_g_equals:
  assumes "have_op_g l \<noteq> 0"
  shows "\<exists>r g' l' g''. calc_apply_g (num1_g l) (num2_g l) (op_g l) g = Some (r, g') \<and>
           main_step_g (CHR ''='') (l, g) = Some (l', g'') \<and>
           res_g l' = r \<and> error_flag g'' = error_flag g' \<and>
           num1_g l' = (if error_flag g' = 0 then r else 0) \<and> num2_g l' = 0 \<and>
           have_op_g l' = 0 \<and> op_g l' = NOKEY"
proof -
  obtain r e where h: "calc_apply (num1_g l) (num2_g l) (op_g l) = Some (r, e)"
    using calc_apply_total by blast
  then have h': "calc_apply_g (num1_g l) (num2_g l) (op_g l) g = Some (r, g\<lparr>error_flag := e\<rparr>)"
    by (simp add: calc_apply_g_calc_apply)
  show ?thesis
    using assms by (simp add: main_step_g_def h' send_def)
qed

lemma chain_5_3:
  "run_keys ''5+3='' init_state =
      Some (\<lparr>num1 = 8, num2 = 0, res = 8, op = NOKEY, have_op = 0, err = 0\<rparr>,
            map LcdData ''5 + 3'' @ lcd_clear @ lcd_goto 0 0 @ lcd_print ''Result:'' @
            lcd_goto 1 0 @ map LcdData ''8'')"
  by code_simp

lemma chain_plus_2:
  "run_keys ''+2='' \<lparr>num1 = 8, num2 = 0, res = 8, op = NOKEY, have_op = 0, err = 0\<rparr> =
      Some (\<lparr>num1 = 10, num2 = 0, res = 10, op = NOKEY, have_op = 0, err = 0\<rparr>,
            map LcdData '' + 2'' @ lcd_clear @ lcd_goto 0 0 @ lcd_print ''Result:'' @
            lcd_goto 1 0 @ map LcdData ''10'')"
  by code_simp

lemma fault_5_0:
  "run_keys ''5/0='' init_state =
      Some (\<lparr>num1 = 0, num2 = 0, res = 0, op = NOKEY, have_op = 0, err = 1\<rparr>,
            map LcdData ''5 / 0'' @ lcd_clear @ lcd_goto 0 0 @ lcd_print ''Result:'' @
            lcd_goto 1 0 @ map LcdData ''Error: /0'')"
  by code_simp

lemma fault_then_3_2:
  "run_keys ''3+2='' \<lparr>num1 = 0, num2 = 0, res = 0, op = NOKEY, have_op = 0, err = 1\<rparr> =
      Some (\<lparr>num1 = 5, num2 = 0, res = 5, op = NOKEY, have_op = 0, err = 0\<rparr>,
            map LcdData ''3 + 2'' @ lcd_clear @ lcd_goto 0 0 @ lcd_print ''Result:'' @
            lcd_goto 1 0 @ map LcdData ''5'')"
  by code_simp

lemma chain_g:
  "run_keys_g ''5+3=+2='' main_start_g =
      Some (\<lparr>num1_g = 10, num2_g = 0, res_g = 10, op_g = NOKEY, have_op_g = 0\<rparr>,
            \<lparr>error_flag = 0,
             lcd = lcd (snd main_start_g) @
                   map LcdData ''5 + 3'' @ lcd_clear @ lcd_goto 0 0 @ lcd_print ''Result:'' @
                   lcd_goto 1 0 @ map LcdData ''8'' @
                   map LcdData '' + 2'' @ lcd_clear @ lcd_goto 0 0 @ lcd_print ''Result:'' @
                   lcd_goto 1 0 @ map LcdData ''10''\<rparr>)"
  by code_simp

lemma fault_g:
  "run_keys_g ''5/0=3+2='' main_start_g =
      Some (\<lparr>num1_g = 5, num2_g = 0, res_g = 5, op_g = NOKEY, have_op_g = 0\<rparr>,
            \<lparr>error_flag = 0,
             lcd = lcd (snd main_start_g) @
                   map LcdData ''5 / 0'' @ lcd_clear @ lcd_goto 0 0 @ lcd_print ''Result:'' @
                   lcd_goto 1 0 @ map LcdData ''Error: /0'' @
                   map LcdData ''3 + 2'' @ lcd_clear @ lcd_goto 0 0 @ lcd_print ''Result:'' @
                   lcd_goto 1 0 @ map LcdData ''5''\<rparr>)"
  by code_simp

text \<open>
  C3. In a state with a pending operator the key \<open>=\<close> applies the evaluator to
  \<open>num1\<close>, \<open>num2\<close> and \<open>op\<close>; afterwards \<open>num1\<close> is the result when the fault is clear and
  0 when it is set, \<open>num2\<close> is 0 and no operator is pending. This holds in \<open>main\<close> of
  calculator.c and of part_000. From the start state the keys \<open>5 + 3 =\<close> leave 8 in
  \<open>num1\<close> and the keys \<open>+ 2 =\<close> then show and leave 10; the keys \<open>5 / 0 =\<close> show the
  error text and leave 0 in \<open>num1\<close>, and the keys \<open>3 + 2 =\<close> then show and leave 5.
\<close>

theorem equals_key:
  "(have_op s \<noteq> 0 \<longrightarrow>
      (\<exists>r e s' out. calc_apply (num1 s) (num2 s) (op s) = Some (r, e) \<and>
           main_step (CHR ''='') s = Some (s', out) \<and>
           res s' = r \<and> err s' = e \<and>
           num1 s' = (if e = 0 then r else 0) \<and> num2 s' = 0 \<and>
           have_op s' = 0 \<and> op s' = NOKEY)) \<and>
   (have_op_g l \<noteq> 0 \<longrightarrow>
      (\<exists>r g' l' g''. calc_apply_g (num1_g l) (num2_g l) (op_g l) g = Some (r, g') \<and>
           main_step_g (CHR ''='') (l, g) = Some (l', g'') \<and>
           res_g l' = r \<and> error_flag g'' = error_flag g' \<and>
           num1_g l' = (if error_flag g' = 0 then r else 0) \<and> num2_g l' = 0 \<and>
           have_op_g l' = 0 \<and> op_g l' = NOKEY)) \<and>
   run_keys ''5+3='' init_state =
      Some (\<lparr>num1 = 8, num2 = 0, res = 8, op = NOKEY, have_op = 0, err = 0\<rparr>,
            map LcdData ''5 + 3'' @ lcd_clear @ lcd_goto 0 0 @ lcd_print ''Result:'' @
            lcd_goto 1 0 @ map LcdData ''8'') \<and>
   run_keys ''+2='' \<lparr>num1 = 8, num2 = 0, res = 8, op = NOKEY, have_op = 0, err = 0\<rparr> =
      Some (\<lparr>num1 = 10, num2 = 0, res = 10, op = NOKEY, have_op = 0, err = 0\<rparr>,
            map LcdData '' + 2'' @ lcd_clear @ lcd_goto 0 0 @ lcd_print ''Result:'' @
            lcd_goto 1 0 @ map LcdData ''10'') \<and>
   run_keys ''5/0='' init_state =
      Some (\<lparr>num1 = 0, num2 = 0, res = 0, op = NOKEY, have_op = 0, err = 1\<rparr>,
            map LcdData ''5 / 0'' @ lcd_clear @ lcd_goto 0 0 @ lcd_print ''Result:'' @
            lcd_goto 1 0 @ map LcdData ''Error: /0'') \<and>
   run_keys ''3+2='' \<lparr>num1 = 0, num2 = 0, res = 0, op = NOKEY, have_op = 0, err = 1\<rparr> =
      Some (\<lparr>num1 = 5, num2 = 0, res = 5, op = NOKEY, have_op = 0, err = 0\<rparr>,
            map LcdData ''3 + 2'' @ lcd_clear @ lcd_goto 0 0 @ lcd_print ''Result:'' @
            lcd_goto 1 0 @ map LcdData ''5'') \<and>
   (\<exists>g2. run_keys_g ''5+3=+2='' main_start_g =
      Some (\<lparr>num1_g = 10, num2_g = 0, res_g = 10, op_g = NOKEY, have_op_g = 0\<rparr>, g2)) \<and>
   (\<exists>g2. run_keys_g ''5/0=3+2='' main_start_g =
      Some (\<lparr>num1_g = 5, num2_g = 0, res_g = 5, op_g = NOKEY, have_op_g = 0\<rparr>, g2))"
  using main_step_equals [of s] main_step_g_equals [of l g]
    chain_5_3 chain_plus_2 fault_5_0 fault_then_3_2 chain_g fault_g
  by (intro conjI impI) blast+

theorem equals_key_witness:
  "have_op \<lparr>num1 = 5, num2 = 0, res = 0, op = CHR ''/'', have_op = 1, err = 0\<rparr> \<noteq> 0 \<and>
   have_op_g \<lparr>num1_g = 5, num2_g = 3, res_g = 0, op_g = CHR ''+'', have_op_g = 1\<rparr> \<noteq> 0 \<and>
   main_step (CHR ''='') \<lparr>num1 = 5, num2 = 0, res = 0, op = CHR ''/'', have_op = 1, err = 0\<rparr> =
     Some (\<lparr>num1 = 0, num2 = 0, res = 0, op = NOKEY, have_op = 0, err = 1\<rparr>,
           lcd_clear @ lcd_goto 0 0 @ lcd_print ''Result:'' @ lcd_goto 1 0 @
           map LcdData ''Error: /0'') \<and>
   fst (the (main_step_g (CHR ''='')
      (\<lparr>num1_g = 5, num2_g = 3, res_g = 0, op_g = CHR ''+'', have_op_g = 1\<rparr>,
       \<lparr>error_flag = 1, lcd = []\<rparr>))) =
     \<lparr>num1_g = 8, num2_g = 0, res_g = 8, op_g = NOKEY, have_op_g = 0\<rparr>"
proof -
  let ?s = "\<lparr>num1 = 5, num2 = 0, res = 0, op = CHR ''/'', have_op = 1, err = 0\<rparr>"
  let ?l = "\<lparr>num1_g = 5, num2_g = 3, res_g = 0, op_g = CHR ''+'', have_op_g = 1\<rparr>"
  let ?g = "\<lparr>error_flag = 1, lcd = []\<rparr>"
  have hs: "have_op ?s \<noteq> 0" and hl: "have_op_g ?l \<noteq> 0" by simp_all
  from equals_key [of ?s ?l ?g] hs
  obtain r e s' out where a: "calc_apply (num1 ?s) (num2 ?s) (op ?s) = Some (r, e)"
      "main_step (CHR ''='') ?s = Some (s', out)"
      "res s' = r" "err s' = e" "num1 s' = (if e = 0 then r else 0)" "num2 s' = 0"
      "have_op s' = 0" "op s' = NOKEY"
    by blast
  have m: "main_step (CHR ''='') ?s =
     Some (\<lparr>num1 = 0, num2 = 0, res = 0, op = NOKEY, have_op = 0, err = 1\<rparr>,
           lcd_clear @ lcd_goto 0 0 @ lcd_print ''Result:'' @ lcd_goto 1 0 @
           map LcdData ''Error: /0'')"
    using a(2) by code_simp
  from equals_key [of ?s ?l ?g] hl
  obtain r g' l' g'' where b: "main_step_g (CHR ''='') (?l, ?g) = Some (l', g'')"
      "calc_apply_g (num1_g ?l) (num2_g ?l) (op_g ?l) ?g = Some (r, g')"
    by blast
  have n: "fst (the (main_step_g (CHR ''='') (?l, ?g))) =
     \<lparr>num1_g = 8, num2_g = 0, res_g = 8, op_g = NOKEY, have_op_g = 0\<rparr>"
    using b(1) by code_simp
  show ?thesis using hs hl m n by simp
qed

section \<open>Input controller: operators and clear\<close>

lemma main_step_total: "\<exists>s' out. main_step key s = Some (s', out)"
proof -
  obtain r e where h: "calc_apply (num1 s) (num2 s) (op s) = Some (r, e)"
    using calc_apply_total by blast
  show ?thesis by (simp add: main_step_def h)
qed

lemma run_keys_total: "\<exists>s' out. run_keys keys s = Some (s', out)"
proof (induction keys arbitrary: s)
  case Nil
  show ?case by simp
next
  case (Cons key keys)
  obtain s1 o1 where a: "main_step key s = Some (s1, o1)"
    using main_step_total by blast
  obtain s2 o2 where b: "run_keys keys s1 = Some (s2, o2)"
    using Cons.IH by blast
  show ?case by (simp add: a b)
qed

lemma run_keys_append:
  "run_keys (xs @ ys) s =
     (case run_keys xs s of
        None \<Rightarrow> None
      | Some (s', out) \<Rightarrow>
          (case run_keys ys s' of
             None \<Rightarrow> None
           | Some (s'', out') \<Rightarrow> Some (s'', out @ out')))"
proof (induction xs arbitrary: s)
  case Nil
  show ?case by (simp split: option.split)
next
  case (Cons key xs)
  show ?case
    by (simp add: Cons.IH split: option.split prod.split)
qed

lemma operator_ignored:
  assumes "is_operator key" and "have_op s \<noteq> 0"
  shows "main_step key s = Some (s, [])"
  using assms by (auto simp add: main_step_def is_operator_def)

lemma operator_ignored_g:
  assumes "is_operator key" and "have_op_g l \<noteq> 0"
  shows "main_step_g key (l, g) = Some (l, g)"
  using assms by (auto simp add: main_step_g_def is_operator_def)

lemma operator_dropped:
  assumes k: "is_operator key" and r: "run_keys before s0 = Some (s, out)" and h: "have_op s \<noteq> 0"
  shows "run_keys (before @ key # after) s0 = run_keys (before @ after) s0"
proof -
  have "run_keys (key # after) s = run_keys after s"
    by (simp add: operator_ignored [OF k h] split: option.split prod.split)
  then show ?thesis
    by (simp only: run_keys_append r option.case prod.case)
qed

lemma main_step_pending:
  assumes "main_step key s = Some (s', out)"
    and "(have_op s = 0 \<and> op s = NOKEY) \<or> (have_op s = 1 \<and> is_operator (op s))"
  shows "(have_op s' = 0 \<and> op s' = NOKEY) \<or> (have_op s' = 1 \<and> is_operator (op s'))"
  using assms
  by (auto simp add: main_step_def is_operator_def split: if_splits option.splits prod.splits)

lemma run_keys_pending:
  assumes "run_keys keys s = Some (s', out)"
    and "(have_op s = 0 \<and> op s = NOKEY) \<or> (have_op s = 1 \<and> is_operator (op s))"
  shows "(have_op s' = 0 \<and> op s' = NOKEY) \<or> (have_op s' = 1 \<and> is_operator (op s'))"
  using assms
proof (induction keys arbitrary: s out)
  case Nil
  then show ?case by simp
next
  case (Cons key keys)
  from Cons.prems(1) obtain s1 o1 o2 where
    a: "main_step key s = Some (s1, o1)" and b: "run_keys keys s1 = Some (s', o2)"
    by (auto split: option.splits prod.splits)
  from main_step_pending [OF a Cons.prems(2)] Cons.IH [OF b] show ?case by blast
qed

lemma lock_in_5_3:
  "run_keys ''5++3='' init_state = run_keys ''5+3='' init_state \<and>
   run_keys ''5+-3='' init_state = run_keys ''5+3='' init_state"
  by code_simp

lemma lock_in_5_3_g:
  "run_keys_g ''5++3='' main_start_g = run_keys_g ''5+3='' main_start_g"
  by code_simp

lemma lock_in_value:
  "run_keys ''5++3='' init_state =
      Some (\<lparr>num1 = 8, num2 = 0, res = 8, op = NOKEY, have_op = 0, err = 0\<rparr>,
            map LcdData ''5 + 3'' @ lcd_clear @ lcd_goto 0 0 @ lcd_print ''Result:'' @
            lcd_goto 1 0 @ map LcdData ''8'')"
  by code_simp

text \<open>
  C4. An operator key pressed while an operator is pending changes neither the variables
  nor the display, in \<open>main\<close> of calculator.c and of part_000, so such a key can be
  removed from any key sequence without changing the outcome. Every state reached from
  the start state holds either no operator or exactly one of the four. The keys
  \<open>5 + + 3 =\<close> end in the same state and display output as \<open>5 + 3 =\<close>.
\<close>

theorem first_operator_wins:
  "(is_operator key \<and> have_op s \<noteq> 0 \<longrightarrow> main_step key s = Some (s, [])) \<and>
   (is_operator key \<and> have_op_g l \<noteq> 0 \<longrightarrow> main_step_g key (l, g) = Some (l, g)) \<and>
   (is_operator key \<and> run_keys before init_state = Some (s, out) \<and> have_op s \<noteq> 0 \<longrightarrow>
      run_keys (before @ key # after) init_state = run_keys (before @ after) init_state) \<and>
   (run_keys before init_state = Some (s, out) \<longrightarrow>
      (have_op s = 0 \<and> op s = NOKEY) \<or> (have_op s = 1 \<and> is_operator (op s))) \<and>
   run_keys ''5++3='' init_state = run_keys ''5+3='' init_state \<and>
   run_keys ''5++3='' init_state =
      Some (\<lparr>num1 = 8, num2 = 0, res = 8, op = NOKEY, have_op = 0, err = 0\<rparr>,
            map LcdData ''5 + 3'' @ lcd_clear @ lcd_goto 0 0 @ lcd_print ''Result:'' @
            lcd_goto 1 0 @ map LcdData ''8'') \<and>
   run_keys_g ''5++3='' main_start_g = run_keys_g ''5+3='' main_start_g"
proof (intro conjI impI)
  show "main_step key s = Some (s, [])" if "is_operator key \<and> have_op s \<noteq> 0"
    using that by (simp add: operator_ignored)
  show "main_step_g key (l, g) = Some (l, g)" if "is_operator key \<and> have_op_g l \<noteq> 0"
    using that by (simp add: operator_ignored_g)
  show "run_keys (before @ key # after) init_state = run_keys (before @ after) init_state"
    if "is_operator key \<and> run_keys before init_state = Some (s, out) \<and> have_op s \<noteq> 0"
    using that operator_dropped [of key before init_state s out after] by blast
  show "(have_op s = 0 \<and> op s = NOKEY) \<or> (have_op s = 1 \<and> is_operator (op s))"
    if "run_keys before init_state = Some (s, out)"
    using that by (rule run_keys_pending) (simp add: init_state_def)
  show "run_keys ''5++3='' init_state = run_keys ''5+3='' init_state"
    using lock_in_5_3 by blast
  show "run_keys ''5++3='' init_state =
      Some (\<lparr>num1 = 8, num2 = 0, res = 8, op = NOKEY, have_op = 0, err = 0\<rparr>,
            map LcdData ''5 + 3'' @ lcd_clear @ lcd_goto 0 0 @ lcd_print ''Result:'' @
            lcd_goto 1 0 @ map LcdData ''8'')"
    by (rule lock_in_value)
  show "run_keys_g ''5++3='' main_start_g = run_keys_g ''5+3='' main_start_g"
    by (rule lock_in_5_3_g)
qed

theorem first_operator_wins_witness:
  "is_operator (CHR ''-'') \<and>
   run_keys ''5+'' init_state =
     Some (\<lparr>num1 = 5, num2 = 0, res = 0, op = CHR ''+'', have_op = 1, err = 0\<rparr>,
           map LcdData ''5 + '') \<and>
   have_op \<lparr>num1 = 5, num2 = 0, res = 0, op = CHR ''+'', have_op = 1, err = 0\<rparr> \<noteq> 0 \<and>
   have_op_g \<lparr>num1_g = 5, num2_g = 0, res_g = 0, op_g = CHR ''+'', have_op_g = 1\<rparr> \<noteq> 0 \<and>
   main_step (CHR ''-'') \<lparr>num1 = 5, num2 = 0, res = 0, op = CHR ''+'', have_op = 1, err = 0\<rparr> =
     Some (\<lparr>num1 = 5, num2 = 0, res = 0, op = CHR ''+'', have_op = 1, err = 0\<rparr>, []) \<and>
   main_step_g (CHR ''-'')
     (\<lparr>num1_g = 5, num2_g = 0, res_g = 0, op_g = CHR ''+'', have_op_g = 1\<rparr>,
      \<lparr>error_flag = 0, lcd = []\<rparr>) =
     Some (\<lparr>num1_g = 5, num2_g = 0, res_g = 0, op_g = CHR ''+'', have_op_g = 1\<rparr>,
           \<lparr>error_flag = 0, lcd = []\<rparr>) \<and>
   run_keys (''5+'' @ CHR ''-'' # ''3='') init_state = run_keys (''5+'' @ ''3='') init_state \<and>
   is_operator (op \<lparr>num1 = 5, num2 = 0, res = 0, op = CHR ''+'', have_op = 1, err = 0\<rparr>)"
proof -
  let ?s = "\<lparr>num1 = 5, num2 = 0, res = 0, op = CHR ''+'', have_op = 1, err = 0\<rparr>"
  let ?l = "\<lparr>num1_g = 5, num2_g = 0, res_g = 0, op_g = CHR ''+'', have_op_g = 1\<rparr>"
  let ?g = "\<lparr>error_flag = 0, lcd = []\<rparr>"
  have k: "is_operator (CHR ''-'')" by (simp add: is_operator_def)
  have r: "run_keys ''5+'' init_state = Some (?s, map LcdData ''5 + '')" by code_simp
  have hs: "have_op ?s \<noteq> 0" and hl: "have_op_g ?l \<noteq> 0" by simp_all
  note t = first_operator_wins [of "CHR ''-''" ?s ?l ?g "''5+''" "map LcdData ''5 + ''" "''3=''"]
  have 1: "main_step (CHR ''-'') ?s = Some (?s, [])" using t k hs by blast
  have 2: "main_step_g (CHR ''-'') (?l, ?g) = Some (?l, ?g)" using t k hl by blast
  have 3: "run_keys (''5+'' @ CHR ''-'' # ''3='') init_state = run_keys (''5+'' @ ''3='') init_state"
    using t k r hs by blast
  have 4: "is_operator (op ?s)" using t r hs by blast
  show ?thesis using k r hs hl 1 2 3 4 by blast
qed

text \<open>
  C7. From every state, after any keys, the key \<open>C\<close> leaves the variables of \<open>main\<close> in
  the state with both operands 0, no pending operator and no fault, which is the state
  \<open>main\<close> starts its loop in; \<open>C\<close> pressed in that state leaves it unchanged. In part_000
  the fault is the global \<open>error_flag\<close>, cleared by \<open>C\<close> as well. The display is sent the
  prompt each time.
\<close>

theorem clear_resets:
  "main_step (CHR ''C'') s = Some (init_state, prompt) \<and>
   init_state = \<lparr>num1 = 0, num2 = 0, res = 0, op = NOKEY, have_op = 0, err = 0\<rparr> \<and>
   fst main_start = init_state \<and>
   main_step (CHR ''C'') init_state = Some (init_state, prompt) \<and>
   (\<exists>out. run_keys (keys @ [CHR ''C'']) s = Some (init_state, out @ prompt)) \<and>
   main_step_g (CHR ''C'') (l, g) =
     Some (init_locals_g, \<lparr>error_flag = 0, lcd = lcd g @ prompt\<rparr>) \<and>
   init_locals_g = \<lparr>num1_g = 0, num2_g = 0, res_g = 0, op_g = NOKEY, have_op_g = 0\<rparr> \<and>
   fst main_start_g = init_locals_g \<and> error_flag (snd main_start_g) = 0"
proof -
  have c: "main_step (CHR ''C'') t = Some (init_state, prompt)" for t
    by (simp add: main_step_def init_state_def prompt_def)
  obtain s' out where r: "run_keys keys s = Some (s', out)"
    using run_keys_total by blast
  have "run_keys (keys @ [CHR ''C'']) s = Some (init_state, out @ prompt)"
    by (simp add: run_keys_append r c)
  then have e: "\<exists>out. run_keys (keys @ [CHR ''C'']) s = Some (init_state, out @ prompt)"
    by blast
  have g: "main_step_g (CHR ''C'') (l, g) =
     Some (init_locals_g, \<lparr>error_flag = 0, lcd = lcd g @ prompt\<rparr>)"
    by (simp add: main_step_g_def init_locals_g_def prompt_def send_def)
  show ?thesis
    using c e g by (simp add: init_state_def init_locals_g_def main_start_def main_start_g_def)
qed

section \<open>Input controller: digits\<close>

lemma digit_key_upto:
  "\<forall>n \<in> set [0..<10].
     is_digit (''0123456789'' ! n) \<and> digit_of (''0123456789'' ! n) = of_nat n \<and>
     \<not> is_operator (''0123456789'' ! n) \<and> ''0123456789'' ! n \<noteq> CHR ''C'' \<and>
     ''0123456789'' ! n \<noteq> CHR ''='' \<and> sint (of_nat n :: long) = int n"
  by code_simp

lemma digit_key:
  assumes "n < 10"
  shows "is_digit (''0123456789'' ! n) \<and> digit_of (''0123456789'' ! n) = of_nat n \<and>
         \<not> is_operator (''0123456789'' ! n) \<and> ''0123456789'' ! n \<noteq> CHR ''C'' \<and>
         ''0123456789'' ! n \<noteq> CHR ''=''"
proof -
  have "n \<in> set [0..<10]" using assms by simp
  then show ?thesis using digit_key_upto by blast
qed

lemma sint_digit:
  assumes "n < 10"
  shows "sint (of_nat n :: long) = int n"
proof -
  have "n \<in> set [0..<10]" using assms by simp
  then show ?thesis using digit_key_upto by blast
qed

lemma sint_accumulate:
  assumes "n < 10"
  shows "sint (x * 10 + of_nat n :: long) = wrap32 (sint x * 10 + int n)"
proof -
  have "sint (x * 10 + of_nat n) = wrap32 (sint (x * 10) + sint (of_nat n :: long))"
    by (rule sint_add_wrap32)
  also have "\<dots> = wrap32 (wrap32 (sint x * 10) + int n)"
    using sint_mult_wrap32 [of x 10] by (simp add: sint_digit [OF assms])
  also have "\<dots> = wrap32 (sint x * 10 + int n)"
    by (simp add: wrap32_def mod_simps ac_simps)
  finally show ?thesis .
qed

text \<open>
  C8. For the digit key with value \<open>n\<close> (the key \<open>''0123456789'' ! n\<close>), \<open>main\<close> of
  calculator.c and of README.md replace \<open>num1\<close> by \<open>num1 * 10 + n\<close> when no operator is
  pending and \<open>num2\<close> by \<open>num2 * 10 + n\<close> when one is; every other variable keeps its
  value and the digit is echoed. The new operand is the exact value wrapped into 32 bits.
\<close>

theorem digit_accumulates:
  "n < 10 \<longrightarrow>
     (have_op s = 0 \<longrightarrow>
        main_step (''0123456789'' ! n) s =
          Some (s\<lparr>num1 := num1 s * 10 + of_nat n\<rparr>, [LcdData (''0123456789'' ! n)])) \<and>
     (have_op s \<noteq> 0 \<longrightarrow>
        main_step (''0123456789'' ! n) s =
          Some (s\<lparr>num2 := num2 s * 10 + of_nat n\<rparr>, [LcdData (''0123456789'' ! n)])) \<and>
     (\<not> have_op_r t \<longrightarrow>
        readme_step (''0123456789'' ! n) t =
          Some (t\<lparr>num1_r := num1_r t * 10 + of_nat n\<rparr>, [LcdData (''0123456789'' ! n)])) \<and>
     (have_op_r t \<longrightarrow>
        readme_step (''0123456789'' ! n) t =
          Some (t\<lparr>num2_r := num2_r t * 10 + of_nat n\<rparr>, [LcdData (''0123456789'' ! n)])) \<and>
     sint (num1 s * 10 + of_nat n) = wrap32 (sint (num1 s) * 10 + int n) \<and>
     sint (num2 s * 10 + of_nat n) = wrap32 (sint (num2 s) * 10 + int n)"
proof
  assume n: "n < 10"
  note d = digit_key [OF n]
  have k: "''0123456789'' ! n \<noteq> CHR ''+''" "''0123456789'' ! n \<noteq> CHR ''-''"
     "''0123456789'' ! n \<noteq> CHR ''*''" "''0123456789'' ! n \<noteq> CHR ''/''"
    using d by (auto simp add: is_operator_def)
  show "(have_op s = 0 \<longrightarrow>
        main_step (''0123456789'' ! n) s =
          Some (s\<lparr>num1 := num1 s * 10 + of_nat n\<rparr>, [LcdData (''0123456789'' ! n)])) \<and>
     (have_op s \<noteq> 0 \<longrightarrow>
        main_step (''0123456789'' ! n) s =
          Some (s\<lparr>num2 := num2 s * 10 + of_nat n\<rparr>, [LcdData (''0123456789'' ! n)])) \<and>
     (\<not> have_op_r t \<longrightarrow>
        readme_step (''0123456789'' ! n) t =
          Some (t\<lparr>num1_r := num1_r t * 10 + of_nat n\<rparr>, [LcdData (''0123456789'' ! n)])) \<and>
     (have_op_r t \<longrightarrow>
        readme_step (''0123456789'' ! n) t =
          Some (t\<lparr>num2_r := num2_r t * 10 + of_nat n\<rparr>, [LcdData (''0123456789'' ! n)])) \<and>
     sint (num1 s * 10 + of_nat n) = wrap32 (sint (num1 s) * 10 + int n) \<and>
     sint (num2 s * 10 + of_nat n) = wrap32 (sint (num2 s) * 10 + int n)"
    using d k sint_accumulate [OF n]
    by (simp add: main_step_def readme_step_def lcd_data_def)
qed

theorem digit_accumulates_witness:
  "(7 :: nat) < 10 \<and> ''0123456789'' ! 7 = CHR ''7'' \<and>
   have_op \<lparr>num1 = 12, num2 = 0, res = 0, op = NOKEY, have_op = 0, err = 0\<rparr> = 0 \<and>
   main_step (CHR ''7'') \<lparr>num1 = 12, num2 = 0, res = 0, op = NOKEY, have_op = 0, err = 0\<rparr> =
     Some (\<lparr>num1 = 127, num2 = 0, res = 0, op = NOKEY, have_op = 0, err = 0\<rparr>, [LcdData (CHR ''7'')]) \<and>
   have_op \<lparr>num1 = 12, num2 = 3, res = 0, op = CHR ''*'', have_op = 1, err = 0\<rparr> \<noteq> 0 \<and>
   main_step (CHR ''7'') \<lparr>num1 = 12, num2 = 3, res = 0, op = CHR ''*'', have_op = 1, err = 0\<rparr> =
     Some (\<lparr>num1 = 12, num2 = 37, res = 0, op = CHR ''*'', have_op = 1, err = 0\<rparr>, [LcdData (CHR ''7'')]) \<and>
   readme_step (CHR ''7'')
     \<lparr>num1_r = 12, num2_r = 0, result_r = 0, op_r = NOKEY, have_op_r = False, err_r = False\<rparr> =
     Some (\<lparr>num1_r = 127, num2_r = 0, result_r = 0, op_r = NOKEY, have_op_r = False, err_r = False\<rparr>,
           [LcdData (CHR ''7'')]) \<and>
   readme_step (CHR ''7'')
     \<lparr>num1_r = 12, num2_r = 3, result_r = 0, op_r = CHR ''*'', have_op_r = True, err_r = False\<rparr> =
     Some (\<lparr>num1_r = 12, num2_r = 37, result_r = 0, op_r = CHR ''*'', have_op_r = True, err_r = False\<rparr>,
           [LcdData (CHR ''7'')])"
proof -
  let ?s1 = "\<lparr>num1 = 12, num2 = 0, res = 0, op = NOKEY, have_op = 0, err = 0\<rparr>"
  let ?s2 = "\<lparr>num1 = 12, num2 = 3, res = 0, op = CHR ''*'', have_op = 1, err = 0\<rparr>"
  let ?t1 = "\<lparr>num1_r = 12, num2_r = 0, result_r = 0, op_r = NOKEY, have_op_r = False, err_r = False\<rparr>"
  let ?t2 = "\<lparr>num1_r = 12, num2_r = 3, result_r = 0, op_r = CHR ''*'', have_op_r = True, err_r = False\<rparr>"
  have n: "(7 :: nat) < 10" by simp
  have c: "''0123456789'' ! 7 = CHR ''7''" by simp
  from digit_accumulates [of 7 ?s1 ?t1] n
  have a: "main_step (''0123456789'' ! 7) ?s1 =
       Some (?s1\<lparr>num1 := num1 ?s1 * 10 + of_nat 7\<rparr>, [LcdData (''0123456789'' ! 7)])"
    and a': "readme_step (''0123456789'' ! 7) ?t1 =
       Some (?t1\<lparr>num1_r := num1_r ?t1 * 10 + of_nat 7\<rparr>, [LcdData (''0123456789'' ! 7)])"
    by simp_all
  from digit_accumulates [of 7 ?s2 ?t2] n
  have b: "main_step (''0123456789'' ! 7) ?s2 =
       Some (?s2\<lparr>num2 := num2 ?s2 * 10 + of_nat 7\<rparr>, [LcdData (''0123456789'' ! 7)])"
    and b': "readme_step (''0123456789'' ! 7) ?t2 =
       Some (?t2\<lparr>num2_r := num2_r ?t2 * 10 + of_nat 7\<rparr>, [LcdData (''0123456789'' ! 7)])"
    by simp_all
  show ?thesis
    using n a a' b b' by simp
qed

section \<open>Keypad: one key per press\<close>

lemma wait_release_shape:
  "wait_release rs = Some rest \<Longrightarrow> \<exists>held. rs = held @ NOKEY # rest \<and> NOKEY \<notin> set held"
proof (induction rs)
  case Nil
  then show ?case by simp
next
  case (Cons r rs)
  show ?case
  proof (cases "r = NOKEY")
    case True
    with Cons.prems have "rs = rest" by simp
    with True have "r # rs = [] @ NOKEY # rest \<and> NOKEY \<notin> set []" by simp
    then show ?thesis by blast
  next
    case False
    with Cons.prems have "wait_release rs = Some rest" by simp
    from Cons.IH [OF this] obtain held where h: "rs = held @ NOKEY # rest" "NOKEY \<notin> set held"
      by blast
    with False have "r # rs = (r # held) @ NOKEY # rest \<and> NOKEY \<notin> set (r # held)" by simp
    then show ?thesis by blast
  qed
qed

lemma wait_release_held:
  "NOKEY \<notin> set held \<Longrightarrow> wait_release (held @ NOKEY # rest) = Some rest"
  by (induction held) auto

lemma getkey_skip_none: "keypad_getkey (NOKEY # rs) = keypad_getkey rs"
proof (cases rs)
  case Nil
  then show ?thesis by simp
next
  case (Cons x xs)
  then show ?thesis by simp
qed

lemma getkey_discard:
  "k \<noteq> NOKEY \<Longrightarrow> r \<noteq> k \<Longrightarrow> keypad_getkey (k # r # rs) = keypad_getkey rs"
  by simp

lemma getkey_shape:
  "keypad_getkey rs = Some (k, rest) \<Longrightarrow>
     k \<noteq> NOKEY \<and>
     (\<exists>pre held. rs = pre @ [k, k] @ held @ NOKEY # rest \<and> NOKEY \<notin> set held \<and>
                 keypad_getkey pre = None)"
proof (induction rs rule: keypad_getkey.induct)
  case 1
  then show ?case by simp
next
  case (2 k0)
  then show ?case by simp
next
  case (3 k0 r rs)
  show ?case
  proof (cases "k0 = NOKEY")
    case True
    with "3.prems" have "keypad_getkey (r # rs) = Some (k, rest)" by simp
    from "3.IH"(2) [OF _ this] True obtain pre held where
      h: "k \<noteq> NOKEY" "r # rs = pre @ [k, k] @ held @ NOKEY # rest" "NOKEY \<notin> set held"
         "keypad_getkey pre = None"
      by blast
    have "keypad_getkey (NOKEY # pre) = None"
      using h(4) by (simp only: getkey_skip_none)
    with h True have "k0 # r # rs = (NOKEY # pre) @ [k, k] @ held @ NOKEY # rest \<and>
        NOKEY \<notin> set held \<and> keypad_getkey (NOKEY # pre) = None"
      by simp
    with h(1) show ?thesis by blast
  next
    case False
    show ?thesis
    proof (cases "r = k0")
      case True
      with False "3.prems" obtain rest' where w: "wait_release rs = Some rest'" and
        e: "k = k0" "rest = rest'"
        by (auto split: option.splits)
      from wait_release_shape [OF w] obtain held where
        h: "rs = held @ NOKEY # rest'" "NOKEY \<notin> set held" by blast
      with True e have "k0 # r # rs = [] @ [k, k] @ held @ NOKEY # rest \<and>
        NOKEY \<notin> set held \<and> keypad_getkey [] = None"
        by simp
      with False e show ?thesis by blast
    next
      case neq: False
      with False "3.prems" have g: "keypad_getkey rs = Some (k, rest)" by simp
      from "3.IH"(1) [OF False neq g] obtain pre held where
        h: "k \<noteq> NOKEY" "rs = pre @ [k, k] @ held @ NOKEY # rest" "NOKEY \<notin> set held"
           "keypad_getkey pre = None"
        by blast
      have "keypad_getkey (k0 # r # pre) = None"
        using False neq h(4) by simp
      with h have "k0 # r # rs = (k0 # r # pre) @ [k, k] @ held @ NOKEY # rest \<and>
        NOKEY \<notin> set held \<and> keypad_getkey (k0 # r # pre) = None"
        by simp
      with h(1) show ?thesis by blast
    qed
  qed
qed

lemma getkey_idle: "keypad_getkey (replicate i NOKEY @ rs) = keypad_getkey rs"
  by (induction i) (simp_all only: replicate.simps append.simps getkey_skip_none)

lemma getkey_steady_press:
  assumes "k \<noteq> NOKEY" and "2 \<le> n"
  shows "keypad_getkey (replicate i NOKEY @ replicate n k @ NOKEY # rest) = Some (k, rest)"
proof -
  obtain m where n: "n = Suc (Suc m)"
    using assms(2) by (metis add_2_eq_Suc le_Suc_ex)
  have "k \<notin> set (replicate m k) \<or> NOKEY \<notin> set (replicate m k)"
    using assms(1) by auto
  then have r: "NOKEY \<notin> set (replicate m k)"
    using assms(1) by auto
  have "keypad_getkey (replicate n k @ NOKEY # rest) = Some (k, rest)"
    using assms(1) by (simp add: n wait_release_held [OF r])
  then show ?thesis by (simp only: getkey_idle)
qed

lemma getkey_bounce:
  assumes "k \<noteq> NOKEY" and "x \<noteq> k" and "2 \<le> n"
  shows "keypad_getkey (k # x # replicate n k @ NOKEY # rest) = Some (k, rest)"
  using getkey_steady_press [OF assms(1,3), of 0 rest] assms(1,2) by simp

lemma readme_wait_release_shape:
  "readme_wait_release ps = Some rest \<Longrightarrow>
     \<exists>held p. ps = held @ p # rest \<and> (\<forall>h \<in> set held. col_low h) \<and> \<not> col_low p"
proof (induction ps)
  case Nil
  then show ?case by simp
next
  case (Cons q ps)
  show ?case
  proof (cases "col_low q")
    case False
    with Cons.prems have "ps = rest" by simp
    with False have "q # ps = [] @ q # rest \<and> (\<forall>h \<in> set []. col_low h) \<and> \<not> col_low q"
      by simp
    then show ?thesis by blast
  next
    case True
    with Cons.prems have "readme_wait_release ps = Some rest" by simp
    from Cons.IH [OF this] obtain held p where
      h: "ps = held @ p # rest" "\<forall>h \<in> set held. col_low h" "\<not> col_low p"
      by blast
    with True have "q # ps = (q # held) @ p # rest \<and> (\<forall>h \<in> set (q # held). col_low h) \<and>
        \<not> col_low p"
      by simp
    then show ?thesis by blast
  qed
qed

lemma find_col_bound: "find_col ps = Some (col, ps') \<Longrightarrow> col < 4"
  by (cases ps rule: find_col.cases) (auto split: if_splits list.splits)

lemma readme_getkey_shape:
  "readme_getkey_from row ps = Some (k, rest) \<Longrightarrow> row < 4 \<Longrightarrow>
     \<exists>pre p p2 after row' col ps'.
        ps = pre @ p # p2 # after \<and> col_low p \<and> col_low p2 \<and>
        find_col after = Some (col, ps') \<and> readme_wait_release ps' = Some rest \<and>
        row' < 4 \<and> col < 4 \<and> k = keymap ! row' ! col"
proof (induction row ps rule: readme_getkey_from.induct)
  case (1 row)
  then show ?case by simp
next
  case (2 row p)
  then show ?case by simp
next
  case (3 row p p2 ps)
  let ?next = "if row < 3 then Suc row else 0"
  have nx: "?next < 4" by simp
  show ?case
  proof (cases "col_low p")
    case False
    with "3.prems" have g: "readme_getkey_from ?next (p2 # ps) = Some (k, rest)" by simp
    from "3.IH"(2) [OF False g nx] obtain pre q q2 after row' col ps' where
      h: "p2 # ps = pre @ q # q2 # after" "col_low q" "col_low q2"
         "find_col after = Some (col, ps')" "readme_wait_release ps' = Some rest"
         "row' < 4" "col < 4" "k = keymap ! row' ! col"
      by blast
    from h(1) have "p # p2 # ps = (p # pre) @ q # q2 # after" by simp
    with h show ?thesis by blast
  next
    case True
    show ?thesis
    proof (cases "col_low p2")
      case False
      with True "3.prems" have g: "readme_getkey_from ?next ps = Some (k, rest)" by simp
      from "3.IH"(1) [OF True False g nx] obtain pre q q2 after row' col ps' where
        h: "ps = pre @ q # q2 # after" "col_low q" "col_low q2"
           "find_col after = Some (col, ps')" "readme_wait_release ps' = Some rest"
           "row' < 4" "col < 4" "k = keymap ! row' ! col"
        by blast
      from h(1) have "p # p2 # ps = (p # p2 # pre) @ q # q2 # after" by simp
      with h show ?thesis by blast
    next
      case c2: True
      with True "3.prems" obtain col ps' where
        f: "find_col ps = Some (col, ps')" and w: "readme_wait_release ps' = Some rest"
        and e: "k = keymap ! row ! col"
        by (auto split: option.splits prod.splits)
      have "p # p2 # ps = [] @ p # p2 # ps" by simp
      with True c2 f w e "3.prems"(2) find_col_bound [OF f] show ?thesis by blast
    qed
  qed
qed

text \<open>
  C5, as stated, fails for \<open>keypad_getkey\<close> of README.md. There the poll and the re-poll
  after the debounce delay only test whether some column line is low. With row 0 driven,
  a first reading with column 0 low (key 1) followed by readings with column 1 low
  (key 2) is not discarded: the function returns 2.
\<close>

theorem readme_keeps_differing_candidate:
  "readme_getkey [0xEE, 0xDE, 0xDE, 0xDE, 0xFE] = Some (CHR ''2'', []) \<and>
   col_low 0xEE \<and> decode 0 0xEE = CHR ''1'' \<and>
   col_low 0xDE \<and> decode 0 0xDE = CHR ''2''"
  by code_simp

text \<open>
  C5, amended. In calculator.c and part_000, \<open>keypad_getkey\<close> returns \<open>k\<close> only when the
  scan results read so far end with \<open>k\<close>, then \<open>k\<close> again on the re-poll, then any results
  other than none, then none, and no earlier pair was confirmed; a re-poll that differs
  from the candidate drops both results and polling starts again. So a steady press, of
  at least two scans and then none, gives exactly one symbol and the call uses up all its
  readings, also when the first re-poll bounced. In README.md, \<open>keypad_getkey\<close> returns only
  after a poll and the re-poll both found some column line low, which one is not
  compared; the symbol is taken from the column reads made after the re-poll, and the
  function returns once a later read finds no column line low.
\<close>

theorem getkey_protocol:
  "(keypad_getkey rs = Some (k, rest) \<longrightarrow>
      k \<noteq> NOKEY \<and>
      (\<exists>pre held. rs = pre @ [k, k] @ held @ NOKEY # rest \<and> NOKEY \<notin> set held \<and>
                  keypad_getkey pre = None)) \<and>
   (c \<noteq> NOKEY \<and> r \<noteq> c \<longrightarrow> keypad_getkey (c # r # rs) = keypad_getkey rs) \<and>
   (c \<noteq> NOKEY \<and> 2 \<le> n \<longrightarrow>
      keypad_getkey (replicate i NOKEY @ replicate n c @ NOKEY # tl0) = Some (c, tl0)) \<and>
   (c \<noteq> NOKEY \<and> 2 \<le> n \<and> x \<noteq> c \<longrightarrow>
      keypad_getkey (c # x # replicate n c @ NOKEY # tl0) = Some (c, tl0)) \<and>
   (readme_getkey ps = Some (k', rest') \<longrightarrow>
      (\<exists>pre p p2 after row col ps' held q.
          ps = pre @ p # p2 # after \<and> col_low p \<and> col_low p2 \<and>
          find_col after = Some (col, ps') \<and> ps' = held @ q # rest' \<and>
          (\<forall>h \<in> set held. col_low h) \<and> \<not> col_low q \<and>
          row < 4 \<and> col < 4 \<and> k' = keymap ! row ! col))"
proof (intro conjI impI)
  show "k \<noteq> NOKEY" if "keypad_getkey rs = Some (k, rest)"
    using getkey_shape [OF that] by blast
  show "\<exists>pre held. rs = pre @ [k, k] @ held @ NOKEY # rest \<and> NOKEY \<notin> set held \<and>
                  keypad_getkey pre = None" if "keypad_getkey rs = Some (k, rest)"
    using getkey_shape [OF that] by blast
  show "keypad_getkey (c # r # rs) = keypad_getkey rs" if "c \<noteq> NOKEY \<and> r \<noteq> c"
    using that by (simp add: getkey_discard)
  show "keypad_getkey (replicate i NOKEY @ replicate n c @ NOKEY # tl0) = Some (c, tl0)"
    if "c \<noteq> NOKEY \<and> 2 \<le> n"
    using that getkey_steady_press [of c n i tl0] by blast
  show "keypad_getkey (c # x # replicate n c @ NOKEY # tl0) = Some (c, tl0)"
    if "c \<noteq> NOKEY \<and> 2 \<le> n \<and> x \<noteq> c"
    using that getkey_bounce [of c x n tl0] by blast
next
  assume a: "readme_getkey ps = Some (k', rest')"
  then have "readme_getkey_from 0 ps = Some (k', rest')" by (simp add: readme_getkey_def)
  from readme_getkey_shape [OF this] obtain pre p p2 after row col ps' where
    h: "ps = pre @ p # p2 # after" "col_low p" "col_low p2"
       "find_col after = Some (col, ps')" "readme_wait_release ps' = Some rest'"
       "row < 4" "col < 4" "k' = keymap ! row ! col"
    by auto
  from readme_wait_release_shape [OF h(5)] obtain held q where
    w: "ps' = held @ q # rest'" "\<forall>h \<in> set held. col_low h" "\<not> col_low q"
    by blast
  from h w show "\<exists>pre p p2 after row col ps' held q.
          ps = pre @ p # p2 # after \<and> col_low p \<and> col_low p2 \<and>
          find_col after = Some (col, ps') \<and> ps' = held @ q # rest' \<and>
          (\<forall>h \<in> set held. col_low h) \<and> \<not> col_low q \<and>
          row < 4 \<and> col < 4 \<and> k' = keymap ! row ! col"
    by blast
qed

theorem getkey_protocol_witness:
  "keypad_getkey [NOKEY, CHR ''5'', CHR ''6'', CHR ''6'', CHR ''6'', NOKEY, CHR ''1''] =
     Some (CHR ''6'', ''1'') \<and>
   (\<exists>pre held.
      [NOKEY, CHR ''5'', CHR ''6'', CHR ''6'', CHR ''6'', NOKEY, CHR ''1''] =
        pre @ [CHR ''6'', CHR ''6''] @ held @ NOKEY # ''1'' \<and>
      NOKEY \<notin> set held \<and> keypad_getkey pre = None) \<and>
   CHR ''5'' \<noteq> NOKEY \<and> CHR ''6'' \<noteq> CHR ''5'' \<and> (2 :: nat) \<le> 2 \<and>
   keypad_getkey (CHR ''5'' # CHR ''6'' # ''77'' @ [NOKEY]) = keypad_getkey (''77'' @ [NOKEY]) \<and>
   keypad_getkey (replicate 1 NOKEY @ replicate 2 (CHR ''5'') @ NOKEY # ''1'') =
     Some (CHR ''5'', ''1'') \<and>
   keypad_getkey (CHR ''5'' # CHR ''6'' # replicate 2 (CHR ''5'') @ NOKEY # ''1'') =
     Some (CHR ''5'', ''1'') \<and>
   readme_getkey [0xEE, 0xEE, 0xEE, 0xFE, 0x12] = Some (CHR ''1'', [0x12]) \<and>
   (\<exists>pre p p2 after row col ps' held q.
      [0xEE, 0xEE, 0xEE, 0xFE, 0x12] = pre @ p # p2 # after \<and> col_low p \<and> col_low p2 \<and>
      find_col after = Some (col, ps') \<and> ps' = held @ q # [0x12] \<and>
      (\<forall>h \<in> set held. col_low h) \<and> \<not> col_low q \<and>
      row < 4 \<and> col < 4 \<and> CHR ''1'' = keymap ! row ! col)"
proof -
  let ?rs = "[NOKEY, CHR ''5'', CHR ''6'', CHR ''6'', CHR ''6'', NOKEY, CHR ''1'']"
  let ?ps = "[0xEE, 0xEE, 0xEE, 0xFE, 0x12] :: uchar list"
  note t = getkey_protocol [where rs = ?rs and k = "CHR ''6''" and rest = "''1''"
      and c = "CHR ''5''" and r = "CHR ''6''" and n = 2 and i = 1 and ?tl0.0 = "''1''"
      and x = "CHR ''6''" and ps = ?ps and k' = "CHR ''1''" and rest' = "[0x12]"]
  have a: "keypad_getkey ?rs = Some (CHR ''6'', ''1'')" by code_simp
  have b: "CHR ''5'' \<noteq> NOKEY" "CHR ''6'' \<noteq> CHR ''5''" "(2 :: nat) \<le> 2" by simp_all
  have c: "readme_getkey ?ps = Some (CHR ''1'', [0x12])" by code_simp
  have d: "keypad_getkey (CHR ''5'' # CHR ''6'' # ''77'' @ [NOKEY]) = keypad_getkey (''77'' @ [NOKEY])"
    using getkey_protocol [where c = "CHR ''5''" and r = "CHR ''6''" and rs = "''77'' @ [NOKEY]"] b
    by blast
  from t a b c d show ?thesis by blast
qed

section \<open>Rendering a number\<close>

lemma emit_buf_update: "i \<le> j \<Longrightarrow> emit_buf i (buf[j := c]) = emit_buf i buf"
  by (induction i) simp_all

lemma digit_char_upto:
  "\<forall>d \<in> set [0..<10]. char_of (unat (word_of_int (int d) + 48 :: long)) = ''0123456789'' ! d"
  by code_simp

lemma sless_zero: "(0 <s (n :: long)) \<longleftrightarrow> 0 < sint n"
  by (simp add: word_sless_alt)

lemma sint_div10:
  assumes "0 \<le> sint n"
  shows "sint (div10 n) = sint n div 10"
proof -
  have q: "sint n sdiv 10 = sint n div 10"
    using assms by (simp add: signed_divide_int_def sgn_if)
  have "0 \<le> sint n div 10" using assms by simp
  moreover have "sint n div 10 \<le> sint n" using assms by simp
  ultimately have "- (2 ^ 31) \<le> sint n div 10 \<and> sint n div 10 < 2 ^ 31"
    using sint_long_range [of n] by simp
  then have "wrap32 (sint n div 10) = sint n div 10"
    by (simp add: wrap32_id)
  then show ?thesis
    by (simp add: div10_def q sint_word_of_int_wrap32)
qed

lemma digit_of_mod10:
  assumes "0 \<le> sint n"
  shows "char_of (unat (mod10 n + 48)) = ''0123456789'' ! (nat (sint n) mod 10)"
proof -
  let ?d = "nat (sint n) mod 10"
  have m: "sint n smod 10 = int ?d"
  proof -
    have "sint n smod 10 = sint n mod 10"
      using assms by (simp add: signed_modulo_int_def sgn_if)
    also have "\<dots> = int (nat (sint n)) mod int 10"
      using assms by simp
    also have "\<dots> = int (nat (sint n) mod 10)"
      by (simp only: zmod_int)
    finally show ?thesis .
  qed
  have "?d \<in> set [0..<10]" by simp
  then have "char_of (unat (word_of_int (int ?d) + 48 :: long)) = ''0123456789'' ! ?d"
    using digit_char_upto by blast
  then show ?thesis
    unfolding mod10_def m .
qed

lemma dec_digits_step:
  assumes "0 < x"
  shows "(if x div 10 = 0 then [] else dec_digits (x div 10)) @ [''0123456789'' ! (x mod 10)] =
         dec_digits x"
proof (cases "x < 10")
  case True
  then show ?thesis by (simp add: dec_digits.simps [of x])
next
  case False
  then have "x div 10 \<noteq> 0" by simp
  with False show ?thesis by (simp add: dec_digits.simps [of x])
qed

lemma fill_then_emit:
  "0 \<le> sint n \<Longrightarrow> nat (sint n) < 10 ^ (10 - i) \<Longrightarrow> i \<le> 10 \<Longrightarrow> length buf = 12 \<Longrightarrow>
     emit_buf (fst (fill_buf n i buf)) (snd (fill_buf n i buf)) =
       (if sint n = 0 then [] else map LcdData (dec_digits (nat (sint n)))) @ emit_buf i buf"
proof (induction n i buf rule: fill_buf.induct)
  case (1 n i buf)
  let ?x = "nat (sint n)"
  show ?case
  proof (cases "sint n = 0")
    case True
    then have "\<not> 0 <s n" by (simp add: sless_zero)
    then have "fill_buf n i buf = (i, buf)" by (simp add: fill_buf.simps [of n i buf])
    with True show ?thesis by simp
  next
    case False
    with "1.prems"(1) have pos: "0 < sint n" by simp
    then have xpos: "0 < ?x" by simp
    have i10: "i < 10"
    proof (rule ccontr)
      assume "\<not> i < 10"
      with "1.prems"(3) have "i = 10" by simp
      with "1.prems"(2) xpos show False by simp
    qed
    let ?c = "char_of (unat (mod10 n + 48))"
    let ?buf = "buf[i := ?c]"
    have guard: "0 <s n \<and> i < 11" using pos i10 by (simp add: sless_zero)
    have unfold: "fill_buf n i buf = fill_buf (div10 n) (Suc i) ?buf"
      using guard by (simp add: fill_buf.simps [of n i buf])
    have d: "sint (div10 n) = sint n div 10"
      using "1.prems"(1) by (rule sint_div10)
    have dn: "nat (sint (div10 n)) = ?x div 10"
      using "1.prems"(1) by (simp add: d nat_div_distrib)
    have p1: "0 \<le> sint (div10 n)" using "1.prems"(1) by (simp add: d)
    have "10 ^ (10 - i) = (10 :: nat) * 10 ^ (10 - Suc i)"
      using i10 by (simp add: Suc_diff_Suc flip: power_Suc)
    with "1.prems"(2) have "?x < 10 * 10 ^ (10 - Suc i)" by simp
    then have p2: "nat (sint (div10 n)) < 10 ^ (10 - Suc i)"
      by (simp add: dn less_mult_imp_div_less mult.commute)
    have p3: "Suc i \<le> 10" using i10 by simp
    have p4: "length ?buf = 12" using "1.prems"(4) by simp
    have ih: "emit_buf (fst (fill_buf (div10 n) (Suc i) ?buf)) (snd (fill_buf (div10 n) (Suc i) ?buf)) =
        (if sint (div10 n) = 0 then [] else map LcdData (dec_digits (nat (sint (div10 n))))) @
        emit_buf (Suc i) ?buf"
      using "1.IH" [OF guard p1 p2 p3 p4] .
    have z: "sint (div10 n) = 0 \<longleftrightarrow> ?x div 10 = 0"
      using p1 dn by (metis nat_0_iff nat_eq_iff2 of_nat_0 order_antisym_conv)
    have e: "emit_buf (Suc i) ?buf = LcdData (''0123456789'' ! (?x mod 10)) # emit_buf i buf"
      using i10 "1.prems"(1,4)
      by (simp add: lcd_data_def emit_buf_update digit_of_mod10)
    have "(if sint (div10 n) = 0 then [] else map LcdData (dec_digits (nat (sint (div10 n))))) @
          emit_buf (Suc i) ?buf =
          map LcdData ((if ?x div 10 = 0 then [] else dec_digits (?x div 10)) @
                       [''0123456789'' ! (?x mod 10)]) @ emit_buf i buf"
      unfolding z dn e by simp
    also have "\<dots> = map LcdData (dec_digits ?x) @ emit_buf i buf"
      by (simp only: dec_digits_step [OF xpos])
    finally show ?thesis
      using False by (simp only: unfold ih if_False)
  qed
qed

lemma sint_neg_long:
  assumes "(n :: long) \<noteq> - 2147483648"
  shows "sint (- n) = - sint n"
proof -
  have "sint n \<noteq> - (2 ^ 31)" using assms by (simp add: long_min_iff)
  then have "- (2 ^ 31) \<le> - sint n \<and> - sint n < 2 ^ 31"
    using sint_long_range [of n] by simp
  then have "wrap32 (- sint n) = - sint n" by (simp add: wrap32_id)
  moreover have "sint (- n) = wrap32 (- sint n)"
    using sint_word_of_int_wrap32 [of "- sint n"] by simp
  ultimately show ?thesis by simp
qed

text \<open>
  For every 32-bit value other than \<open>- 2 ^ 31\<close>, \<open>lcd_print_num\<close> sends exactly the
  decimal representation: a minus sign and the digits of the magnitude for a negative
  value, the digits without leading zeros for a positive one, and \<open>0\<close> for zero.
\<close>

lemma lcd_print_num_decimal:
  assumes "n \<noteq> - 2147483648"
  shows "lcd_print_num n = map LcdData (decimal (sint n))"
proof (cases "n = 0")
  case True
  then show ?thesis
    by (simp add: lcd_print_num_def lcd_data_def decimal_def dec_digits.simps [of 0])
next
  case False
  then have nz: "sint n \<noteq> 0" using sint_b_nonzero by blast
  show ?thesis
  proof (cases "n <s 0")
    case True
    then have neg: "sint n < 0" by (simp add: word_sless_alt)
    have s: "sint (- n) = - sint n" using assms by (rule sint_neg_long)
    have "emit_buf (fst (fill_buf (- n) 0 (replicate 12 NOKEY)))
            (snd (fill_buf (- n) 0 (replicate 12 NOKEY))) =
          (if sint (- n) = 0 then [] else map LcdData (dec_digits (nat (sint (- n))))) @
          emit_buf 0 (replicate 12 NOKEY)"
      using neg sint_long_range [of n] by (intro fill_then_emit) (simp_all add: s)
    then show ?thesis
      using neg False True
      by (simp add: lcd_print_num_def lcd_data_def decimal_def s case_prod_beta)
  next
    case notneg: False
    then have pos: "0 < sint n" using nz by (simp add: word_sless_alt)
    have "emit_buf (fst (fill_buf n 0 (replicate 12 NOKEY)))
            (snd (fill_buf n 0 (replicate 12 NOKEY))) =
          (if sint n = 0 then [] else map LcdData (dec_digits (nat (sint n)))) @
          emit_buf 0 (replicate 12 NOKEY)"
      using pos sint_long_range [of n] by (intro fill_then_emit) simp_all
    then show ?thesis
      using pos False notneg
      by (simp add: lcd_print_num_def lcd_data_def decimal_def case_prod_beta)
  qed
qed

text \<open>
  C9 does not hold for the value \<open>- 2 ^ 31\<close>. The negation \<open>n = -n\<close> overflows and leaves
  \<open>n\<close> negative, the digit loop does not run, and only the minus sign is sent, where the
  decimal representation is \<open>-2147483648\<close>. The value is reached from the keypad: typing
  \<open>2147483648\<close> wraps \<open>num1\<close> to it, and \<open>+ 0 =\<close> displays it.
\<close>

theorem print_num_most_negative:
  "lcd_print_num (- 2147483648) = [LcdData (CHR ''-'')] \<and>
   decimal (sint (- 2147483648 :: long)) = ''-2147483648'' \<and>
   run_keys ''2147483648+0='' init_state =
     Some (\<lparr>num1 = - 2147483648, num2 = 0, res = - 2147483648, op = NOKEY,
            have_op = 0, err = 0\<rparr>,
           map LcdData ''2147483648 + 0'' @ lcd_clear @ lcd_goto 0 0 @
           lcd_print ''Result:'' @ lcd_goto 1 0 @ [LcdData (CHR ''-'')])"
proof (intro conjI)
  show "lcd_print_num (- 2147483648) = [LcdData (CHR ''-'')]"
    by code_simp
  show "decimal (sint (- 2147483648 :: long)) = ''-2147483648''"
    by (simp add: decimal_def dec_digits.simps)
  show "run_keys ''2147483648+0='' init_state =
     Some (\<lparr>num1 = - 2147483648, num2 = 0, res = - 2147483648, op = NOKEY,
            have_op = 0, err = 0\<rparr>,
           map LcdData ''2147483648 + 0'' @ lcd_clear @ lcd_goto 0 0 @
           lcd_print ''Result:'' @ lcd_goto 1 0 @ [LcdData (CHR ''-'')])"
    by code_simp
qed

end
